theory Spec2Isabelle
  imports Complex_Main "HOL-Library.Log_Nat"
begin

section \<open>Strings\<close>

text \<open>
  A Python \<open>str\<close> is a sequence of Unicode code points. The byte-order mark U+FEFF does
  not fit into an 8-bit \<open>char\<close>, so a string is a list of code points, and a literal of
  the source is the list of the code points of its (ASCII) characters.
\<close>

type_synonym ustr = "nat list"

definition lit :: "string \<Rightarrow> ustr" where
  "lit s = map of_char s"

text \<open>\<open>s.startswith(p)\<close>.\<close>

fun startswith :: "ustr \<Rightarrow> ustr \<Rightarrow> bool" where
  "startswith s [] = True"
| "startswith [] (p # ps) = False"
| "startswith (c # cs) (p # ps) = (c = p \<and> startswith cs ps)"

text \<open>\<open>sub in s\<close>: \<open>sub\<close> occurs in \<open>s\<close> at some position.\<close>

fun str_in :: "ustr \<Rightarrow> ustr \<Rightarrow> bool" where
  "str_in sub [] = (sub = [])"
| "str_in sub (c # cs) = (startswith (c # cs) sub \<or> str_in sub cs)"

text \<open>\<open>s.lstrip(chars)\<close>: drop the leading code points that occur in \<open>chars\<close>.\<close>

definition lstrip :: "ustr \<Rightarrow> ustr \<Rightarrow> ustr" where
  "lstrip s chars = dropWhile (\<lambda>c. c \<in> set chars) s"

section \<open>filter\_user\_groups.py\<close>

subsection \<open>Rows of \<open>csv.DictReader\<close>\<close>

text \<open>
  \<open>csv.DictReader\<close> yields one dict per record: the header's field names as keys, each
  with the record's string, or with \<open>None\<close> (the reader's \<open>restval\<close>) where the record
  is shorter than the header; the surplus values of a record longer than the header are
  a list under the key \<open>None\<close> (the reader's \<open>restkey\<close>). \<open>named\<close> holds the items
  under the header's names, \<open>rest\<close> the list under \<open>restkey\<close> when there is one.
\<close>

record row =
  named :: "(ustr \<times> ustr option) list"
  rest :: "ustr list option"

datatype py_error = FileNotFoundError | AttributeError | ValueError

text \<open>\<open>row.get(key, default)\<close>; the value \<open>None\<close> of the result is Python's \<open>None\<close>.\<close>

definition row_get :: "row \<Rightarrow> ustr \<Rightarrow> ustr option \<Rightarrow> ustr option" where
  "row_get r key dflt = (case map_of (named r) key of None \<Rightarrow> dflt | Some v \<Rightarrow> v)"

definition exclusion_strings :: "ustr list" where
  "exclusion_strings = map lit
     [''DV'', ''DEV'', ''UAT'', ''SB'', ''DIT'', ''PT'', ''SIT'', ''Dev'', ''UA'', ''QA'',
      ''Test'', ''Sandbox'', ''SANDBOX'', ''SandBox'']"

definition bom :: nat where
  "bom = 0xFEFF"

text \<open>
  \<open>name = row.get('Name', '')\<close>, its leading U+FEFF code points stripped by \<open>lstrip\<close>.
  The default covers a missing key only: a value \<open>None\<close> has no \<open>lstrip\<close> and the
  call raises \<open>AttributeError\<close>.
\<close>

definition row_name :: "row \<Rightarrow> py_error + ustr" where
  "row_name r =
     (case row_get r (lit ''Name'') (Some []) of
        None \<Rightarrow> Inl AttributeError
      | Some s \<Rightarrow> Inr (lstrip s [bom]))"

text \<open>\<open>any(exclude_str in name for exclude_str in exclusion_strings)\<close>\<close>

definition should_exclude :: "ustr \<Rightarrow> bool" where
  "should_exclude name = list_ex (\<lambda>exclude_str. str_in exclude_str name) exclusion_strings"

subsection \<open>The reading loop\<close>

text \<open>What the function prints, one constructor per \<open>print\<close> call.\<close>

datatype message =
    Excluded ustr
  | Completed nat nat nat
  | NoProductionEntries
  | InputNotFound
  | ErrorProcessing py_error

record loop_state =
  filtered_data :: "row list"
  excluded_count :: nat
  total_count :: nat
  printed :: "message list"

definition initial_state :: loop_state where
  "initial_state = \<lparr>filtered_data = [], excluded_count = 0, total_count = 0, printed = []\<rparr>"

text \<open>
  The loop over the reader's rows. An exception leaves the loop with what was printed
  before it.
\<close>

fun filter_loop :: "row list \<Rightarrow> loop_state \<Rightarrow> (py_error \<times> message list) + loop_state" where
  "filter_loop [] st = Inr st"
| "filter_loop (r # rs) st =
     (let st1 = st\<lparr>total_count := total_count st + 1\<rparr> in
      case row_name r of
        Inl e \<Rightarrow> Inl (e, printed st1)
      | Inr name \<Rightarrow>
          if \<not> should_exclude name
          then filter_loop rs (st1\<lparr>filtered_data := filtered_data st1 @ [r]\<rparr>)
          else filter_loop rs (st1\<lparr>excluded_count := excluded_count st1 + 1,
                                     printed := printed st1 @ [Excluded name]\<rparr>))"

subsection \<open>Writing the result\<close>

text \<open>
  \<open>csv.DictWriter\<close> with \<open>fieldnames = ['Name', 'Id']\<close> and the default
  \<open>extrasaction='raise'\<close>: a row with any other key raises \<open>ValueError\<close>; a key of
  \<open>fieldnames\<close> that the row lacks is written as the empty string (\<open>restval\<close>), and so is
  the value \<open>None\<close>.
\<close>

definition fieldnames :: "ustr list" where
  "fieldnames = [lit ''Name'', lit ''Id'']"

definition wrong_fields :: "row \<Rightarrow> bool" where
  "wrong_fields r = (list_ex (\<lambda>k. k \<notin> set fieldnames) (map fst (named r)) \<or> rest r \<noteq> None)"

definition csv_text :: "ustr option \<Rightarrow> ustr" where
  "csv_text v = (case v of None \<Rightarrow> [] | Some s \<Rightarrow> s)"

definition dict_to_list :: "row \<Rightarrow> py_error + ustr list" where
  "dict_to_list r =
     (if wrong_fields r then Inl ValueError
      else Inr (map (\<lambda>key. csv_text (row_get r key (Some []))) fieldnames))"

text \<open>
  \<open>writerows\<close> writes the rows one after the other; the records before a row that raises
  are already in the file. The result is the file's records and the error, if any.
\<close>

fun writerows :: "row list \<Rightarrow> ustr list list \<Rightarrow> ustr list list \<times> py_error option" where
  "writerows [] recs = (recs, None)"
| "writerows (r # rs) recs =
     (case dict_to_list r of
        Inl e \<Rightarrow> (recs, Some e)
      | Inr rec \<Rightarrow> writerows rs (recs @ [rec]))"

subsection \<open>\<open>filter_production_groups\<close>\<close>

text \<open>
  The input file is absent or holds a list of rows. The outcome is the returned flag,
  the records of the output file when the function opened it for writing (\<open>None\<close> when it
  did not touch the file), and what was printed.
\<close>

datatype input_file = Absent | Rows "row list"

record outcome =
  returned :: bool
  output_file :: "ustr list list option"
  stdout :: "message list"

definition filter_production_groups :: "input_file \<Rightarrow> outcome" where
  "filter_production_groups input =
     (case input of
        Absent \<Rightarrow> \<lparr>returned = False, output_file = None, stdout = [InputNotFound]\<rparr>
      | Rows rows \<Rightarrow>
          (case filter_loop rows initial_state of
             Inl (e, out) \<Rightarrow>
               \<lparr>returned = False, output_file = None, stdout = out @ [ErrorProcessing e]\<rparr>
           | Inr st \<Rightarrow>
               if filtered_data st \<noteq> []
               then (case writerows (filtered_data st) [fieldnames] of
                       (recs, Some e) \<Rightarrow>
                         \<lparr>returned = False, output_file = Some recs,
                          stdout = printed st @ [ErrorProcessing e]\<rparr>
                     | (recs, None) \<Rightarrow>
                         \<lparr>returned = True, output_file = Some recs,
                          stdout = printed st @
                            [Completed (total_count st) (excluded_count st)
                               (length (filtered_data st))]\<rparr>)
               else \<lparr>returned = True, output_file = None,
                     stdout = printed st @ [NoProductionEntries]\<rparr>))"

text \<open>The rows a run keeps, \<open>None\<close> when the loop raises.\<close>

definition filter_rows :: "row list \<Rightarrow> row list option" where
  "filter_rows rows =
     (case filter_loop rows initial_state of
        Inl _ \<Rightarrow> None
      | Inr st \<Rightarrow> Some (filtered_data st))"

subsection \<open>The specification's reading of the filter\<close>

text \<open>
  The specification's words, to compare the code with: the name of a row is its
  \<open>Name\<close> field without the leading byte-order marks; a name has a marker when one of
  the exclusion strings occurs in it as a substring (case-sensitive); the production
  rows are the rows whose name has no marker, in their order.
\<close>

definition name_text :: "row \<Rightarrow> ustr" where
  "name_text r = (case row_name r of Inl _ \<Rightarrow> [] | Inr name \<Rightarrow> name)"

definition has_marker :: "ustr \<Rightarrow> bool" where
  "has_marker name = (\<exists>e\<in>set exclusion_strings. \<exists>pre post. name = pre @ e @ post)"

definition production_rows :: "row list \<Rightarrow> row list" where
  "production_rows rows = filter (\<lambda>r. \<not> has_marker (name_text r)) rows"

text \<open>The record written for a row: its \<open>Name\<close> and its \<open>Id\<close>.\<close>

definition name_id :: "row \<Rightarrow> ustr list" where
  "name_id r = [csv_text (row_get r (lit ''Name'') (Some [])),
                csv_text (row_get r (lit ''Id'') (Some []))]"

section \<open>list\_resource\_types.py\<close>

text \<open>
  The functions' \<open>print\<close> calls influence no result and are left out of this part of
  the model.
\<close>

subsection \<open>Python dicts, \<open>Counter\<close> and sorting\<close>

text \<open>
  A dict keeps its keys in insertion order; an assignment to a key that is present
  replaces the value in place. It is the list of its items.
\<close>

fun dict_set :: "'k \<Rightarrow> 'v \<Rightarrow> ('k \<times> 'v) list \<Rightarrow> ('k \<times> 'v) list" where
  "dict_set k v [] = [(k, v)]"
| "dict_set k v ((k', v') # d) = (if k = k' then (k', v) # d else (k', v') # dict_set k v d)"

definition dict_get :: "('k \<times> 'v) list \<Rightarrow> 'k \<Rightarrow> 'v \<Rightarrow> 'v" where
  "dict_get d k dflt = (case map_of d k of None \<Rightarrow> dflt | Some v \<Rightarrow> v)"

text \<open>\<open>dict(pairs)\<close>: the pairs are assigned one after the other.\<close>

definition dict_of :: "('k \<times> 'v) list \<Rightarrow> ('k \<times> 'v) list" where
  "dict_of pairs = fold (\<lambda>(k, v) d. dict_set k v d) pairs []"

text \<open>\<open>Counter(iterable)\<close>: \<open>mapping[elem] = mapping.get(elem, 0) + 1\<close> for each element.\<close>

definition count_step :: "'a \<Rightarrow> ('a \<times> nat) list \<Rightarrow> ('a \<times> nat) list" where
  "count_step elem mapping = dict_set elem (dict_get mapping elem 0 + 1) mapping"

definition counter :: "'a list \<Rightarrow> ('a \<times> nat) list" where
  "counter xs = fold count_step xs []"

text \<open>
  \<open>sorted(xs, key=key, reverse=True)\<close>: the list is reversed, sorted by a stable
  ascending sort, and reversed again, so that elements with equal keys keep their order.
\<close>

definition sorted_reverse :: "('a \<Rightarrow> 'k::linorder) \<Rightarrow> 'a list \<Rightarrow> 'a list" where
  "sorted_reverse key xs = rev (sort_key key (rev xs))"

text \<open>
  \<open>Counter.most_common(n)\<close>: without \<open>n\<close> the items sorted by count, largest first; with
  \<open>n\<close> it is \<open>heapq.nlargest(n, items, key=itemgetter(1))\<close>, which is
  \<open>sorted(items, key=itemgetter(1), reverse=True)[:n]\<close>.
\<close>

definition most_common :: "nat option \<Rightarrow> ('a \<times> nat) list \<Rightarrow> ('a \<times> nat) list" where
  "most_common n items =
     (case n of
        None \<Rightarrow> sorted_reverse snd items
      | Some n \<Rightarrow> take n (sorted_reverse snd items))"

subsection \<open>Python floats\<close>

text \<open>
  A finite float is the rational number it stands for. \<open>fl\<close> rounds a rational to the
  nearest IEEE 754 double, ties to the even significand: 53 significant bits and the
  least exponent \<open>-1022\<close> (below it the spacing stays \<open>2 powi -1074\<close>). Overflow is left
  out: every value rounded here lies between 0 and 128.
\<close>

definition round_half_even :: "rat \<Rightarrow> int" where
  "round_half_even y =
     (let f = \<lfloor>y\<rfloor>; d = y - of_int f
      in if d < 1 / 2 then f else if 1 / 2 < d then f + 1 else if even f then f else f + 1)"

text \<open>The exponent \<open>e\<close> of a positive rational: \<open>2 powi e \<le> x < 2 powi (e + 1)\<close>.\<close>

definition ilog2 :: "rat \<Rightarrow> int" where
  "ilog2 x =
     (let (a, b) = quotient_of x; e0 = bitlen a - bitlen b
      in if 2 powi e0 \<le> x then e0 else e0 - 1)"

definition fl :: "rat \<Rightarrow> rat" where
  "fl x =
     (if x = 0 then 0
      else let q = max (ilog2 \<bar>x\<bar>) (- 1022) - 52
           in sgn x * of_int (round_half_even (\<bar>x\<bar> / 2 powi q)) * 2 powi q)"

text \<open>
  \<open>a / b\<close> on ints is the correctly rounded quotient, and \<open>x * y\<close> on floats the rounded
  product. The only division of the program is by \<open>len(resources)\<close> in the branch where
  \<open>resources\<close> is not empty, so \<open>ZeroDivisionError\<close> is not a case of the model.
\<close>

definition int_truediv :: "nat \<Rightarrow> nat \<Rightarrow> rat" where
  "int_truediv a b = fl (of_nat a / of_nat b)"

definition float_mul :: "rat \<Rightarrow> rat \<Rightarrow> rat" where
  "float_mul x y = fl (x * y)"

text \<open>
  \<open>round(x, 2)\<close> on a float: the float's exact value is rounded to two decimals, ties to
  the even digit, and the decimal is converted back to the nearest float.
\<close>

definition round2 :: "rat \<Rightarrow> rat" where
  "round2 x = fl (of_int (round_half_even (x * 100)) / 100)"

subsection \<open>The analyzer\<close>

record subscription =
  display_name :: ustr
  subscription_id :: ustr
  state :: ustr

text \<open>A resource as the SDK lists it, and the dict the lister makes of it.\<close>

record listed_resource =
  listed_type :: ustr
  listed_name :: ustr
  listed_location :: ustr
  listed_id :: ustr

record resource =
  res_type :: ustr
  res_name :: ustr
  res_location :: ustr
  res_resource_group :: ustr
  res_subscription_id :: ustr

text \<open>A remote listing call raises or yields its list.\<close>

datatype 'a listing = Raised | Listed "'a list"

record analyzer =
  target_subscriptions :: "ustr list"

text \<open>\<open>self.target_subscriptions = target_subscriptions or []\<close>\<close>

definition init :: "ustr list option \<Rightarrow> analyzer" where
  "init targets =
     \<lparr>target_subscriptions = (case targets of None \<Rightarrow> [] | Some ts \<Rightarrow> if ts = [] then [] else ts)\<rparr>"

subsection \<open>\<open>get_subscriptions\<close>\<close>

definition all_subscriptions :: "subscription list \<Rightarrow> (ustr \<times> ustr) list" where
  "all_subscriptions subs =
     fold (\<lambda>sub d.
        if state sub = lit ''Enabled''
        then dict_set (subscription_id sub) (subscription_id sub)
               (dict_set (display_name sub) (subscription_id sub) d)
        else d) subs []"

text \<open>
  The loop over the targets: \<open>if target_sub in all_subscriptions\<close> and then
  \<open>all_subscriptions[target_sub]\<close> are one lookup.
\<close>

fun find_targets :: "(ustr \<times> ustr) list \<Rightarrow> ustr list \<Rightarrow> ustr list \<Rightarrow> ustr list" where
  "find_targets d [] found_subscriptions = found_subscriptions"
| "find_targets d (target_sub # targets) found_subscriptions =
     (case map_of d target_sub of
        Some sub_id \<Rightarrow> find_targets d targets (found_subscriptions @ [sub_id])
      | None \<Rightarrow> find_targets d targets found_subscriptions)"

definition get_subscriptions :: "analyzer \<Rightarrow> subscription listing \<Rightarrow> ustr list" where
  "get_subscriptions self remote =
     (case remote of
        Raised \<Rightarrow> []
      | Listed subs \<Rightarrow> find_targets (all_subscriptions subs) (target_subscriptions self) [])"

subsection \<open>\<open>get_resources_from_subscription\<close>, \<open>get_all_resources\<close>\<close>

text \<open>\<open>s.split(sep)\<close> for a separator of one code point.\<close>

fun split :: "ustr \<Rightarrow> nat \<Rightarrow> ustr list" where
  "split [] sep = [[]]"
| "split (c # cs) sep =
     (if c = sep then [] # split cs sep
      else (case split cs sep of
              [] \<Rightarrow> [[c]]
            | w # ws \<Rightarrow> (c # w) # ws))"

definition slash :: nat where
  "slash = of_char CHR ''/''"

text \<open>
  \<open>resource.id.split('/')[4] if len(resource.id.split('/')) > 4 else 'Unknown'\<close>
\<close>

definition resource_group_of :: "ustr \<Rightarrow> ustr" where
  "resource_group_of rid =
     (if length (split rid slash) > 4 then split rid slash ! 4 else lit ''Unknown'')"

definition get_resources_from_subscription ::
    "(ustr \<Rightarrow> listed_resource listing) \<Rightarrow> ustr \<Rightarrow> resource list" where
  "get_resources_from_subscription client sub_id =
     (case client sub_id of
        Raised \<Rightarrow> []
      | Listed rs \<Rightarrow>
          map (\<lambda>r. \<lparr>res_type = listed_type r,
                     res_name = listed_name r,
                     res_location = listed_location r,
                     res_resource_group = resource_group_of (listed_id r),
                     res_subscription_id = sub_id\<rparr>) rs)"

definition get_all_resources ::
    "analyzer \<Rightarrow> subscription listing \<Rightarrow> (ustr \<Rightarrow> listed_resource listing) \<Rightarrow> resource list" where
  "get_all_resources self remote client =
     (let subscriptions = get_subscriptions self remote
      in if subscriptions = [] then []
         else concat (map (get_resources_from_subscription client) subscriptions))"

subsection \<open>\<open>analyze_resource_types\<close>\<close>

definition get_resource_type_descriptions :: "(ustr \<times> ustr) list" where
  "get_resource_type_descriptions =
     [
      (lit ''Microsoft.Compute/virtualMachines'',
       lit ''Virtual machines for running applications and workloads''),
      (lit ''Microsoft.Storage/storageAccounts'',
       lit ''Storage accounts for data storage and file sharing''),
      (lit ''Microsoft.Web/sites'',
       lit ''App Service web applications and APIs''),
      (lit ''Microsoft.Sql/servers'',
       lit ''Azure SQL Database servers''),
      (lit ''Microsoft.Sql/servers/databases'',
       lit ''Azure SQL databases''),
      (lit ''Microsoft.Network/virtualNetworks'',
       lit ''Virtual networks for network isolation''),
      (lit ''Microsoft.Network/networkSecurityGroups'',
       lit ''Network security groups for traffic filtering''),
      (lit ''Microsoft.Network/publicIPAddresses'',
       lit ''Public IP addresses for internet connectivity''),
      (lit ''Microsoft.Network/loadBalancers'',
       lit ''Load balancers for distributing traffic''),
      (lit ''Microsoft.Network/networkInterfaces'',
       lit ''Network interfaces for VM connectivity''),
      (lit ''Microsoft.KeyVault/vaults'',
       lit ''Key vaults for secrets and certificate management''),
      (lit ''Microsoft.Insights/components'',
       lit ''Application Insights for application monitoring''),
      (lit ''Microsoft.Authorization/roleAssignments'',
       lit ''Role assignments for access control''),
      (lit ''Microsoft.Resources/resourceGroups'',
       lit ''Resource groups for organizing resources''),
      (lit ''Microsoft.ContainerRegistry/registries'',
       lit ''Container registries for Docker images''),
      (lit ''Microsoft.ContainerService/managedClusters'',
       lit ''Azure Kubernetes Service clusters''),
      (lit ''Microsoft.ServiceBus/namespaces'',
       lit ''Service Bus namespaces for messaging''),
      (lit ''Microsoft.EventHub/namespaces'',
       lit ''Event Hub namespaces for event streaming''),
      (lit ''Microsoft.Logic/workflows'',
       lit ''Logic Apps for workflow automation''),
      (lit ''Microsoft.Web/serverfarms'',
       lit ''App Service plans for hosting web apps''),
      (lit ''Microsoft.CognitiveServices/accounts'',
       lit ''Cognitive Services for AI capabilities''),
      (lit ''Microsoft.MachineLearningServices/workspaces'',
       lit ''Machine Learning workspaces''),
      (lit ''Microsoft.DocumentDB/databaseAccounts'',
       lit ''Cosmos DB database accounts''),
      (lit ''Microsoft.Cache/Redis'',
       lit ''Azure Cache for Redis''),
      (lit ''Microsoft.ApiManagement/service'',
       lit ''API Management services''),
      (lit ''Microsoft.DataFactory/factories'',
       lit ''Data Factory for data integration''),
      (lit ''Microsoft.StreamAnalytics/streamingjobs'',
       lit ''Stream Analytics for real-time analytics''),
      (lit ''Microsoft.Automation/automationAccounts'',
       lit ''Automation accounts for runbooks''),
      (lit ''Microsoft.RecoveryServices/vaults'',
       lit ''Recovery Services vaults for backup''),
      (lit ''Microsoft.Network/applicationGateways'',
       lit ''Application gateways for web traffic management''),
      (lit ''Microsoft.OperationalInsights/workspaces'',
       lit ''Log Analytics workspaces for monitoring and logging''),
      (lit ''Microsoft.Security/automations'',
       lit ''Security Center automation rules''),
      (lit ''Microsoft.ManagedIdentity/userAssignedIdentities'',
       lit ''User-assigned managed identities''),
      (lit ''Microsoft.AlertsManagement/actionRules'',
       lit ''Action rules for alert management''),
      (lit ''Microsoft.Monitor/actionGroups'',
       lit ''Action groups for alert notifications'')
     ]"

text \<open>The values of the analysis dict: a number, the details per type, counts per key, a list of strings.\<close>

record type_details =
  count :: nat
  description :: ustr
  percentage :: rat

datatype analysis_value =
    Number nat
  | TypeTable "(ustr \<times> type_details) list"
  | CountTable "(ustr \<times> nat) list"
  | Strings "ustr list"

type_synonym analysis = "(string \<times> analysis_value) list"

text \<open>The dict of one resource type: its count, its description and its percentage.\<close>

definition details_of :: "nat \<Rightarrow> ustr \<Rightarrow> nat \<Rightarrow> type_details" where
  "details_of n resource_type cnt =
     \<lparr>count = cnt,
      description = dict_get get_resource_type_descriptions resource_type
                      (lit ''No description available''),
      percentage = round2 (float_mul (int_truediv cnt n) 100)\<rparr>"

text \<open>
  The loop over \<open>resource_type_counts.most_common()\<close>, which fills
  \<open>analysis['resource_types']\<close>; \<open>n\<close> is \<open>len(resources)\<close>.
\<close>

definition resource_type_details :: "nat \<Rightarrow> (ustr \<times> nat) list \<Rightarrow> (ustr \<times> type_details) list" where
  "resource_type_details n resource_type_counts =
     fold (\<lambda>(resource_type, cnt) d. dict_set resource_type (details_of n resource_type cnt) d)
       (most_common None resource_type_counts) []"

definition analyze_resource_types :: "analyzer \<Rightarrow> resource list \<Rightarrow> analysis" where
  "analyze_resource_types self resources =
     (if resources = [] then
        [(''total_resources'', Number 0),
         (''resource_types'', TypeTable []),
         (''top_locations'', CountTable []),
         (''top_resource_groups'', CountTable []),
         (''subscriptions_scanned'', Strings (target_subscriptions self))]
      else
        let resource_type_counts = counter (map res_type resources);
            location_counts = counter (map res_location resources);
            rg_counts = counter (map res_resource_group resources);
            subscription_counts = counter (map res_subscription_id resources)
        in
        [(''total_resources'', Number (length resources)),
         (''resource_types'',
            TypeTable (resource_type_details (length resources) resource_type_counts)),
         (''top_locations'', CountTable (dict_of (most_common (Some 10) location_counts))),
         (''top_resource_groups'', CountTable (dict_of (most_common (Some 10) rg_counts))),
         (''subscription_distribution'', CountTable (dict_of subscription_counts)),
         (''subscriptions_scanned'', Strings (target_subscriptions self))])"

subsection \<open>\<open>generate_report\<close>: the resource types section\<close>

text \<open>\<open>str(n)\<close> for a count: its decimal digits.\<close>

fun str_nat :: "nat \<Rightarrow> ustr" where
  "str_nat n = (if n < 10 then [48 + n] else str_nat (n div 10) @ [48 + n mod 10])"

text \<open>
  The lines that \<open>generate_report\<close> appends for \<open>analysis['resource_types']\<close>: the
  two heading lines and three lines per type, in the order of the dict's items. The text
  of a float in an f-string is a parameter \<open>str_float\<close>.
\<close>

definition resource_types_section ::
    "(rat \<Rightarrow> ustr) \<Rightarrow> (ustr \<times> type_details) list \<Rightarrow> ustr list" where
  "resource_types_section str_float resource_types =
     [lit ''RESOURCE TYPES BY COUNT:'', replicate 50 (of_char CHR ''-'')] @
     concat (map (\<lambda>(resource_type, details).
        [10 # resource_type,
         lit ''  Count: '' @ str_nat (count details) @ lit '' ('' @
           str_float (percentage details) @ lit ''%)'',
         lit ''  Description: '' @ description details]) resource_types)"

subsection \<open>The specification's reading of the counts\<close>

text \<open>
  The keys of a list in the order in which they are first met, and the position at which
  a key is first met.
\<close>

fun first_seen :: "'a list \<Rightarrow> 'a list" where
  "first_seen [] = []"
| "first_seen (x # xs) = x # filter (\<lambda>y. y \<noteq> x) (first_seen xs)"

definition first_index :: "'a list \<Rightarrow> 'a \<Rightarrow> nat" where
  "first_index xs x = length (takeWhile (\<lambda>y. y \<noteq> x) xs)"

text \<open>
  Descending count, ties between equal counts in the order in which the keys are first
  met in \<open>xs\<close>.
\<close>

definition count_order :: "'a list \<Rightarrow> 'a \<times> nat \<Rightarrow> 'a \<times> nat \<Rightarrow> bool" where
  "count_order xs a b =
     (snd b < snd a \<or> (snd a = snd b \<and> first_index xs (fst a) < first_index xs (fst b)))"

subsection \<open>The specification's reading of the resolver and of the identifier\<close>

text \<open>
  A target is resolved to the identifier of an enabled subscription whose display name
  or identifier it is; where several match, the dict holds the one listed last.
\<close>

definition enabled :: "subscription \<Rightarrow> bool" where
  "enabled sub = (state sub = lit ''Enabled'')"

definition matches :: "ustr \<Rightarrow> subscription \<Rightarrow> bool" where
  "matches target sub = (display_name sub = target \<or> subscription_id sub = target)"

definition resolve :: "subscription list \<Rightarrow> ustr \<Rightarrow> ustr option" where
  "resolve subs target =
     map_option subscription_id (find (matches target) (rev (filter enabled subs)))"

text \<open>The segments of an identifier, joined by the separator.\<close>

fun join :: "nat \<Rightarrow> ustr list \<Rightarrow> ustr" where
  "join sep [] = []"
| "join sep [s] = s"
| "join sep (s # t # ts) = s @ sep # join sep (t # ts)"

section \<open>Example inputs\<close>

definition dev_row :: row where
  "dev_row = \<lparr>named = [(lit ''Name'', Some (lit ''App-DEV-01'')), (lit ''Id'', Some (lit ''1''))],
     rest = None\<rparr>"

definition prod_row :: row where
  "prod_row = \<lparr>named = [(lit ''Name'', Some (lit ''App-PROD-01'')), (lit ''Id'', Some (lit ''2''))],
     rest = None\<rparr>"

definition short_row :: row where
  "short_row = \<lparr>named = [(lit ''Id'', Some (lit ''2'')), (lit ''Name'', None)], rest = None\<rparr>"

definition full_row :: row where
  "full_row = \<lparr>named = [(lit ''Id'', Some (lit ''1'')), (lit ''Name'', Some (lit ''App-PROD-01''))],
     rest = None\<rparr>"

definition wide_row :: row where
  "wide_row =
     \<lparr>named = [(lit ''Name'', Some (lit ''App-PROD-01'')), (lit ''Id'', Some (lit ''2'')),
               (lit ''Description'', Some (lit ''x''))],
      rest = None\<rparr>"

definition example_subscriptions :: "subscription list" where
  "example_subscriptions =
     [\<lparr>display_name = lit ''SLProd'', subscription_id = lit ''id-1'', state = lit ''Enabled''\<rparr>,
      \<lparr>display_name = lit ''SLSharedDR'', subscription_id = lit ''id-2'', state = lit ''Disabled''\<rparr>,
      \<lparr>display_name = lit ''SLSharedProd'', subscription_id = lit ''id-3'', state = lit ''Enabled''\<rparr>]"

text \<open>The targets of \<open>main\<close>.\<close>

definition example_analyzer :: analyzer where
  "example_analyzer =
     init (Some [lit ''ESS-PROD-C00-001'', lit ''SLProd'', lit ''SLSharedDR'', lit ''SLSharedProd''])"

definition example_id :: ustr where
  "example_id = lit ''/subscriptions/x/resourceGroups/rg1/providers/p''"

definition example_segments :: "ustr list" where
  "example_segments =
     [[], lit ''subscriptions'', lit ''x'', lit ''resourceGroups'', lit ''rg1'', lit ''providers'',
      lit ''p'']"

definition example_resources :: "resource list" where
  "example_resources =
     [\<lparr>res_type = lit ''Microsoft.Compute/virtualMachines'', res_name = lit ''vm1'',
       res_location = lit ''eastus'', res_resource_group = lit ''rg1'',
       res_subscription_id = lit ''id-1''\<rparr>,
      \<lparr>res_type = lit ''Microsoft.Storage/storageAccounts'', res_name = lit ''st1'',
       res_location = lit ''westus'', res_resource_group = lit ''rg2'',
       res_subscription_id = lit ''id-1''\<rparr>,
      \<lparr>res_type = lit ''Microsoft.Compute/virtualMachines'', res_name = lit ''vm2'',
       res_location = lit ''westus'', res_resource_group = lit ''rg1'',
       res_subscription_id = lit ''id-3''\<rparr>,
      \<lparr>res_type = lit ''Microsoft.Compute/virtualMachines'', res_name = lit ''vm3'',
       res_location = lit ''eastus'', res_resource_group = lit ''rg3'',
       res_subscription_id = lit ''id-3''\<rparr>]"

definition example_type_table :: "(ustr \<times> type_details) list" where
  "example_type_table =
     [(lit ''Microsoft.Compute/virtualMachines'',
       \<lparr>count = 3,
        description = lit ''Virtual machines for running applications and workloads'',
        percentage = 75\<rparr>),
      (lit ''Microsoft.Storage/storageAccounts'',
       \<lparr>count = 1,
        description = lit ''Storage accounts for data storage and file sharing'',
        percentage = 25\<rparr>)]"

section \<open>Properties of the row filter\<close>

text \<open>
  The two tests on strings are what their names say: \<open>str_in\<close> holds when the
  string can be cut into a part before, the substring, and a part after.
\<close>

lemma startswith_iff: "startswith s p \<longleftrightarrow> (\<exists>post. s = p @ post)"
  by (induction s p rule: startswith.induct) auto

lemma str_in_iff: "str_in sub s \<longleftrightarrow> (\<exists>pre post. s = pre @ sub @ post)"
proof (induction s)
  case Nil
  then show ?case by auto
next
  case (Cons c cs)
  show ?case
  proof
    assume "str_in sub (c # cs)"
    then consider "startswith (c # cs) sub" | "str_in sub cs" by auto
    then show "\<exists>pre post. c # cs = pre @ sub @ post"
    proof cases
      case 1
      then obtain post where "c # cs = sub @ post" by (auto simp: startswith_iff)
      then have "c # cs = [] @ sub @ post" by simp
      then show ?thesis by blast
    next
      case 2
      then obtain pre post where "cs = pre @ sub @ post" using Cons.IH by blast
      then have "c # cs = (c # pre) @ sub @ post" by simp
      then show ?thesis by blast
    qed
  next
    assume "\<exists>pre post. c # cs = pre @ sub @ post"
    then obtain pre post where eq: "c # cs = pre @ sub @ post" by blast
    show "str_in sub (c # cs)"
    proof (cases pre)
      case Nil
      with eq have "startswith (c # cs) sub" by (auto simp: startswith_iff)
      then show ?thesis by simp
    next
      case (Cons a pre')
      with eq have "cs = pre' @ sub @ post" by simp
      then have "str_in sub cs" using Cons.IH by blast
      then show ?thesis by simp
    qed
  qed
qed

lemma should_exclude_iff: "should_exclude name \<longleftrightarrow> has_marker name"
  by (simp add: should_exclude_def has_marker_def list_ex_iff str_in_iff)

text \<open>
  \<open>lstrip\<close> with the byte-order mark removes the leading marks and only them.
\<close>

lemma lstrip_bom:
  "\<exists>n. s = replicate n bom @ lstrip s [bom] \<and> \<not> startswith (lstrip s [bom]) [bom]"
proof (induction s)
  case Nil
  then show ?case by (simp add: lstrip_def)
next
  case (Cons c cs)
  show ?case
  proof (cases "c = bom")
    case True
    from Cons obtain n where "cs = replicate n bom @ lstrip cs [bom]"
      and "\<not> startswith (lstrip cs [bom]) [bom]" by blast
    then have "c # cs = replicate (Suc n) bom @ lstrip (c # cs) [bom]
        \<and> \<not> startswith (lstrip (c # cs) [bom]) [bom]"
      using True by (simp add: lstrip_def)
    then show ?thesis by blast
  next
    case False
    then have "c # cs = replicate 0 bom @ lstrip (c # cs) [bom]
        \<and> \<not> startswith (lstrip (c # cs) [bom]) [bom]"
      by (simp add: lstrip_def)
    then show ?thesis by blast
  qed
qed

text \<open>
  The loop succeeds exactly when no row raises, and then its state is determined: the
  kept rows are the production rows, and each excluded row is counted and printed.
\<close>

lemma filter_loop_run:
  "\<forall>r\<in>set rows. \<exists>name. row_name r = Inr name \<Longrightarrow>
   filter_loop rows st = Inr
     \<lparr>filtered_data = filtered_data st @ production_rows rows,
      excluded_count = excluded_count st + length (filter (\<lambda>r. has_marker (name_text r)) rows),
      total_count = total_count st + length rows,
      printed = printed st @
        map (\<lambda>r. Excluded (name_text r)) (filter (\<lambda>r. has_marker (name_text r)) rows)\<rparr>"
proof (induction rows arbitrary: st)
  case Nil
  then show ?case by (simp add: production_rows_def)
next
  case (Cons r rows)
  then obtain name where n: "row_name r = Inr name" by auto
  have rest: "\<forall>r\<in>set rows. \<exists>name. row_name r = Inr name" using Cons.prems by simp
  show ?case
    using n by (simp add: Cons.IH[OF rest] Let_def production_rows_def name_text_def should_exclude_iff)
qed

lemma row_name_Inr: "row_get r (lit ''Name'') (Some []) \<noteq> None \<Longrightarrow> \<exists>name. row_name r = Inr name"
  by (auto simp: row_name_def split: option.splits)

lemma filter_loop_raises:
  "filter_loop rows st = Inl (e, out) \<Longrightarrow> \<exists>r\<in>set rows. row_name r = Inl e"
proof (induction rows arbitrary: st)
  case Nil
  then show ?case by simp
next
  case (Cons r rows)
  then show ?case
    by (auto simp: Let_def split: sum.splits if_splits)
qed

lemma filter_loop_Inr:
  "filter_loop rows st = Inr st' \<Longrightarrow> \<forall>r\<in>set rows. \<exists>name. row_name r = Inr name"
proof (induction rows arbitrary: st)
  case Nil
  then show ?case by simp
next
  case (Cons r rows)
  then show ?case
    by (auto simp: Let_def split: sum.splits if_splits)
qed

lemma filter_rows_Some:
  "filter_rows rows = Some out \<Longrightarrow>
   (\<forall>r\<in>set rows. \<exists>name. row_name r = Inr name) \<and> out = production_rows rows"
proof -
  assume run: "filter_rows rows = Some out"
  then obtain st where st: "filter_loop rows initial_state = Inr st" and out: "out = filtered_data st"
    by (auto simp: filter_rows_def split: sum.splits)
  have ok: "\<forall>r\<in>set rows. \<exists>name. row_name r = Inr name"
    using st by (rule filter_loop_Inr)
  have "filter_loop rows initial_state = Inr
     \<lparr>filtered_data = production_rows rows,
      excluded_count = length (filter (\<lambda>r. has_marker (name_text r)) rows),
      total_count = length rows,
      printed = map (\<lambda>r. Excluded (name_text r)) (filter (\<lambda>r. has_marker (name_text r)) rows)\<rparr>"
    by (simp add: filter_loop_run[OF ok] initial_state_def)
  with st have "filtered_data st = production_rows rows" by auto
  with out have "out = production_rows rows" by simp
  with ok show ?thesis by simp
qed

lemma writerows_run:
  "\<forall>r\<in>set rows. \<not> wrong_fields r \<Longrightarrow> writerows rows recs = (recs @ map name_id rows, None)"
  by (induction rows arbitrary: recs) (auto simp: dict_to_list_def fieldnames_def name_id_def)

lemma production_rows_idem: "production_rows (production_rows rows) = production_rows rows"
  by (simp add: production_rows_def)

lemma production_rows_subset: "set (production_rows rows) \<subseteq> set rows"
  by (auto simp: production_rows_def)

lemma output_of_kept:
  "filter_rows rows = Some out \<Longrightarrow>
   output_file (filter_production_groups (Rows rows)) =
     (if out = [] then None else Some (fst (writerows out [fieldnames])))
   \<and> returned (filter_production_groups (Rows rows)) =
     (out = [] \<or> snd (writerows out [fieldnames]) = None)"
  by (auto simp: filter_rows_def filter_production_groups_def split: sum.splits prod.splits option.splits)

lemma ex_run: "filter_rows [dev_row, prod_row] = Some [prod_row]"
  by (simp add: filter_rows_def initial_state_def Let_def row_name_def row_get_def
      dev_row_def prod_row_def lit_def should_exclude_def exclusion_strings_def lstrip_def bom_def)

text \<open>
  Claim C1, as amended. For every list of rows in which no row has a column besides
  \<open>Name\<close> and \<open>Id\<close> and no \<open>Name\<close> is \<open>None\<close>, the rows that the filter keeps are exactly
  the rows whose name, with the leading byte-order marks stripped, contains none of the
  exclusion strings as a substring, in their original order. The function returns
  \<open>True\<close>, and the output file holds the header and, for each kept row in that order, its
  \<open>Name\<close> and its \<open>Id\<close> as they are in the row; when no row is kept the file is not
  written.
\<close>

theorem filter_output_exact:
  assumes names: "\<forall>r\<in>set rows. row_get r (lit ''Name'') (Some []) \<noteq> None"
    and cols: "\<forall>r\<in>set rows. \<not> wrong_fields r"
  shows "filter_rows rows = Some (production_rows rows)
    \<and> returned (filter_production_groups (Rows rows))
    \<and> output_file (filter_production_groups (Rows rows)) =
        (if production_rows rows = [] then None
         else Some (fieldnames # map name_id (production_rows rows)))"
proof -
  have ok: "\<forall>r\<in>set rows. \<exists>name. row_name r = Inr name"
    using names row_name_Inr by blast
  have loop: "filter_loop rows initial_state = Inr
     \<lparr>filtered_data = production_rows rows,
      excluded_count = length (filter (\<lambda>r. has_marker (name_text r)) rows),
      total_count = length rows,
      printed = map (\<lambda>r. Excluded (name_text r)) (filter (\<lambda>r. has_marker (name_text r)) rows)\<rparr>"
    by (simp add: filter_loop_run[OF ok] initial_state_def)
  have "\<forall>r\<in>set (production_rows rows). \<not> wrong_fields r"
    using cols production_rows_subset by blast
  then have wr: "writerows (production_rows rows) [fieldnames]
      = ([fieldnames] @ map name_id (production_rows rows), None)"
    by (rule writerows_run)
  show ?thesis
    by (simp add: filter_rows_def filter_production_groups_def loop wr)
qed

text \<open>
  The scenario of the specification: of the rows \<open>App-DEV-01\<close> and \<open>App-PROD-01\<close> the
  second is written.
\<close>

theorem filter_output_exact_witness:
  "production_rows [dev_row, prod_row] = [prod_row]
   \<and> output_file (filter_production_groups (Rows [dev_row, prod_row])) =
       Some [[lit ''Name'', lit ''Id''], [lit ''App-PROD-01'', lit ''2'']]"
proof -
  have h1: "\<forall>r\<in>set [dev_row, prod_row]. row_get r (lit ''Name'') (Some []) \<noteq> None"
    by (simp add: dev_row_def prod_row_def row_get_def lit_def)
  have h2: "\<forall>r\<in>set [dev_row, prod_row]. \<not> wrong_fields r"
    by (simp add: dev_row_def prod_row_def wrong_fields_def fieldnames_def lit_def)
  have ni: "name_id prod_row = [lit ''App-PROD-01'', lit ''2'']"
    by (simp add: name_id_def prod_row_def row_get_def csv_text_def lit_def)
  from filter_output_exact[OF h1 h2] ex_run ni show ?thesis
    by (simp add: fieldnames_def)
qed

lemma wide_row_kept: "filter_rows [wide_row] = Some [wide_row]"
  by (simp add: filter_rows_def initial_state_def Let_def row_name_def row_get_def
      wide_row_def lit_def should_exclude_def exclusion_strings_def lstrip_def bom_def)

lemma wide_row_run:
  "filter_production_groups (Rows [wide_row])
       = \<lparr>returned = False, output_file = Some [[lit ''Name'', lit ''Id'']],
          stdout = [ErrorProcessing ValueError]\<rparr>"
  by (simp add: filter_production_groups_def initial_state_def Let_def row_name_def row_get_def
      wide_row_def lit_def should_exclude_def exclusion_strings_def lstrip_def bom_def
      dict_to_list_def wrong_fields_def fieldnames_def)

text \<open>
  Claim C1 as stated, for every list of rows, fails for a row with a third column: the
  row has no marker in its name and is kept by the loop, but the writer is set up for
  the fields \<open>Name\<close> and \<open>Id\<close> only and raises \<open>ValueError\<close> on it, so the file holds the
  header alone and the function returns \<open>False\<close>.
\<close>

theorem wide_row_not_written:
  "production_rows [wide_row] = [wide_row]
   \<and> filter_production_groups (Rows [wide_row])
       = \<lparr>returned = False, output_file = Some [[lit ''Name'', lit ''Id'']],
          stdout = [ErrorProcessing ValueError]\<rparr>"
proof -
  have "production_rows [wide_row] = [wide_row]"
    using filter_rows_Some[OF wide_row_kept] by simp
  then show ?thesis using wide_row_run by simp
qed

text \<open>
  Claim C8. Filtering is idempotent: when a run on a list of rows keeps the rows \<open>out\<close>,
  a run on \<open>out\<close> keeps \<open>out\<close> again, and it leaves the same output file and returns the
  same flag.
\<close>

theorem filter_idempotent:
  "filter_rows rows = Some out \<Longrightarrow>
   filter_rows out = Some out
   \<and> output_file (filter_production_groups (Rows out))
       = output_file (filter_production_groups (Rows rows))
   \<and> returned (filter_production_groups (Rows out))
       = returned (filter_production_groups (Rows rows))"
proof -
  assume run: "filter_rows rows = Some out"
  then have ok: "\<forall>r\<in>set rows. \<exists>name. row_name r = Inr name"
    and out: "out = production_rows rows"
    using filter_rows_Some by blast+
  have "\<forall>r\<in>set out. \<exists>name. row_name r = Inr name"
    using ok out production_rows_subset by blast
  then have "filter_loop out initial_state = Inr
     \<lparr>filtered_data = production_rows out,
      excluded_count = length (filter (\<lambda>r. has_marker (name_text r)) out),
      total_count = length out,
      printed = map (\<lambda>r. Excluded (name_text r)) (filter (\<lambda>r. has_marker (name_text r)) out)\<rparr>"
    by (simp add: filter_loop_run initial_state_def)
  then have again: "filter_rows out = Some out"
    by (simp add: filter_rows_def out production_rows_idem)
  show ?thesis
    using again output_of_kept[OF run] output_of_kept[OF again] by simp
qed

theorem filter_idempotent_witness:
  "filter_rows [dev_row, prod_row] = Some [prod_row] \<and> filter_rows [prod_row] = Some [prod_row]"
proof -
  from filter_idempotent[OF ex_run] ex_run show ?thesis by simp
qed

text \<open>
  A row without the key \<open>Name\<close> has the empty name and is kept.
\<close>

lemma missing_name_kept:
  assumes "map_of (named r) (lit ''Name'') = None"
  shows "row_name r = Inr [] \<and> \<not> should_exclude []"
  using assms
  by (simp add: row_name_def row_get_def lstrip_def should_exclude_def exclusion_strings_def lit_def)

text \<open>
  Claim C3 says that a malformed or missing \<open>Name\<close> is treated as the empty string, so
  that the row is never excluded and the run raises no error. The code does so for a
  missing key only. For a record shorter than the header, \<open>csv.DictReader\<close> stores \<open>None\<close>
  under \<open>Name\<close>; \<open>row.get('Name', '')\<close> then returns \<open>None\<close>, \<open>lstrip\<close> raises
  \<open>AttributeError\<close>, and the run ends with \<open>False\<close> and writes nothing, although the row
  before it would have been kept. The input is the file with the header \<open>Id,Name\<close> and the
  records \<open>1,App-PROD-01\<close> and \<open>2\<close>.
\<close>

theorem none_name_aborts_run:
  "filter_production_groups (Rows [full_row, short_row]) =
     \<lparr>returned = False, output_file = None, stdout = [ErrorProcessing AttributeError]\<rparr>"
  by (simp add: filter_production_groups_def initial_state_def Let_def row_name_def row_get_def
      short_row_def full_row_def lit_def should_exclude_def exclusion_strings_def lstrip_def bom_def)

section \<open>Properties of dicts, counters and sorting\<close>

text \<open>
  An assignment keeps the keys and their order when the key is present and appends the
  key otherwise; \<open>dict\<close> of pairs with distinct keys is the list of the pairs.
\<close>

lemma keys_dict_set_present: "k \<in> fst ` set d \<Longrightarrow> map fst (dict_set k v d) = map fst d"
  by (induction d) force+

lemma dict_set_fresh: "k \<notin> fst ` set d \<Longrightarrow> dict_set k v d = d @ [(k, v)]"
  by (induction d) auto

lemma keys_dict_set:
  "map fst (dict_set k v d) = (if k \<in> fst ` set d then map fst d else map fst d @ [k])"
  by (simp add: keys_dict_set_present dict_set_fresh)

lemma map_of_dict_set: "map_of (dict_set k v d) = (map_of d)(k \<mapsto> v)"
  by (induction d) auto

lemma fold_dict_set_fresh:
  "distinct (map fst ps) \<Longrightarrow> fst ` set ps \<inter> fst ` set d = {} \<Longrightarrow>
   fold (\<lambda>(k, v) d. dict_set k v d) ps d = d @ ps"
proof (induction ps arbitrary: d)
  case Nil
  then show ?case by simp
next
  case (Cons p ps)
  obtain k v where p: "p = (k, v)" by (cases p)
  have fresh: "k \<notin> fst ` set d" using Cons.prems(2) p by auto
  have "fst ` set ps \<inter> fst ` set (d @ [(k, v)]) = {}"
    using Cons.prems p by (auto simp: image_iff)
  moreover have "distinct (map fst ps)" using Cons.prems(1) by simp
  ultimately have "fold (\<lambda>(k, v) d. dict_set k v d) ps (d @ [(k, v)]) = (d @ [(k, v)]) @ ps"
    by (rule Cons.IH[rotated])
  then show ?case by (simp add: p dict_set_fresh[OF fresh])
qed

lemma dict_of_distinct: "distinct (map fst ps) \<Longrightarrow> dict_of ps = ps"
  using fold_dict_set_fresh[of ps "[]"] by (simp add: dict_of_def)

text \<open>
  A \<open>Counter\<close> lists the keys in the order in which they are first met, each with the
  number of its occurrences.
\<close>

lemma set_first_seen [simp]: "set (first_seen xs) = set xs"
  by (induction xs) auto

lemma distinct_first_seen [simp]: "distinct (first_seen xs)"
  by (induction xs) auto

lemma keys_fold_count:
  "map fst (fold count_step xs d)
     = map fst d @ filter (\<lambda>x. x \<notin> fst ` set d) (first_seen xs)"
proof (induction xs arbitrary: d)
  case Nil
  then show ?case by simp
next
  case (Cons x xs)
  show ?case
  proof (cases "x \<in> fst ` set d")
    case True
    then have keys: "map fst (count_step x d) = map fst d"
      by (simp add: keys_dict_set count_step_def)
    then have same: "fst ` set (count_step x d) = fst ` set d"
      by (metis list.set_map)
    have "filter (\<lambda>y. y \<notin> fst ` set d) (filter (\<lambda>y. y \<noteq> x) (first_seen xs))
        = filter (\<lambda>y. y \<notin> fst ` set d) (first_seen xs)"
      using True by (auto intro: filter_cong)
    then show ?thesis using True by (simp add: Cons.IH keys same)
  next
    case False
    then have keys: "map fst (count_step x d) = map fst d @ [x]"
      by (simp add: keys_dict_set count_step_def)
    then have same: "fst ` set (count_step x d) = insert x (fst ` set d)"
      by (metis list.set_map set_append Un_insert_right list.simps(15) sup_bot.right_neutral empty_set)
    have "filter (\<lambda>y. y \<notin> insert x (fst ` set d)) (first_seen xs)
        = filter (\<lambda>y. y \<notin> fst ` set d) (filter (\<lambda>y. y \<noteq> x) (first_seen xs))"
      by (auto intro: filter_cong)
    then show ?thesis using False by (simp add: Cons.IH keys same)
  qed
qed

lemma map_of_count_step:
  "map_of (count_step x d) = (map_of d)(x \<mapsto> dict_get d x 0 + 1)"
  by (simp add: count_step_def map_of_dict_set)

lemma map_of_fold_count:
  "map_of (fold count_step xs d) k
     = (if k \<in> set xs then Some (dict_get d k 0 + count_list xs k) else map_of d k)"
proof (induction xs arbitrary: d)
  case Nil
  then show ?case by simp
next
  case (Cons x xs)
  have get: "dict_get (count_step x d) k 0 = (if k = x then dict_get d x 0 + 1 else dict_get d k 0)"
    by (simp add: dict_get_def map_of_count_step)
  show ?case
  proof (cases "k = x")
    case True
    then show ?thesis
      using get Cons.IH[of "count_step x d"] by (simp add: map_of_count_step)
  next
    case False
    then show ?thesis
      using get Cons.IH[of "count_step x d"] by (simp add: map_of_count_step)
  qed
qed

lemma alist_by_keys:
  "distinct (map fst d) \<Longrightarrow> map (\<lambda>k. (k, the (map_of d k))) (map fst d) = d"
proof -
  assume dist: "distinct (map fst d)"
  have "\<forall>p\<in>set d. (fst p, the (map_of d (fst p))) = p"
  proof
    fix p assume "p \<in> set d"
    then have "(fst p, snd p) \<in> set d" by simp
    with dist have "map_of d (fst p) = Some (snd p)" by (rule map_of_is_SomeI)
    then show "(fst p, the (map_of d (fst p))) = p" by simp
  qed
  then have "map (\<lambda>p. (fst p, the (map_of d (fst p)))) d = d" by (simp add: map_idI)
  then show ?thesis by (simp add: comp_def)
qed

lemma counter_eq: "counter xs = map (\<lambda>k. (k, count_list xs k)) (first_seen xs)"
proof -
  have keys: "map fst (counter xs) = first_seen xs"
    by (simp add: counter_def keys_fold_count)
  then have "distinct (map fst (counter xs))" by simp
  then have "counter xs = map (\<lambda>k. (k, the (map_of (counter xs) k))) (map fst (counter xs))"
    by (simp only: alist_by_keys)
  also have "\<dots> = map (\<lambda>k. (k, the (map_of (counter xs) k))) (first_seen xs)"
    by (simp add: keys)
  also have "\<dots> = map (\<lambda>k. (k, count_list xs k)) (first_seen xs)"
    by (rule map_cong) (auto simp: counter_def map_of_fold_count dict_get_def)
  finally show ?thesis .
qed

lemma keys_counter: "map fst (counter xs) = first_seen xs"
  by (simp add: counter_eq comp_def)

lemma set_counter: "set (counter xs) = (\<lambda>k. (k, count_list xs k)) ` set xs"
  by (simp add: counter_eq)

lemma length_counter: "length (counter xs) = card (set xs)"
proof -
  have "length (counter xs) = length (first_seen xs)" by (simp add: counter_eq)
  also have "\<dots> = card (set (first_seen xs))" by (rule distinct_card[symmetric]) simp
  finally show ?thesis by simp
qed

lemma sum_counts: "sum_list (map snd (counter xs)) = length xs"
proof -
  have "sum_list (map snd (counter xs)) = sum_list (map (count_list xs) (first_seen xs))"
    by (simp add: counter_eq comp_def)
  also have "\<dots> = sum (count_list xs) (set (first_seen xs))"
    by (rule sum_list_distinct_conv_sum_set) simp
  also have "\<dots> = length xs" by (simp add: sum_count_set)
  finally show ?thesis .
qed

lemma first_index_Cons:
  "first_index (x # xs) y = (if y = x then 0 else Suc (first_index xs y))"
  by (simp add: first_index_def)

lemma first_seen_sorted:
  "sorted_wrt (\<lambda>a b. first_index xs a < first_index xs b) (first_seen xs)"
proof (induction xs)
  case Nil
  then show ?case by simp
next
  case (Cons x xs)
  have "sorted_wrt (\<lambda>a b. first_index xs a < first_index xs b) (filter (\<lambda>y. y \<noteq> x) (first_seen xs))"
    using Cons by (rule sorted_wrt_filter)
  then have "sorted_wrt (\<lambda>a b. first_index (x # xs) a < first_index (x # xs) b)
      (filter (\<lambda>y. y \<noteq> x) (first_seen xs))"
    by (rule sorted_wrt_mono_rel[rotated]) (auto simp: first_index_Cons)
  then show ?case by (auto simp: first_index_Cons)
qed

lemma counter_sorted_first_index:
  "sorted_wrt (\<lambda>a b. first_index xs (fst a) < first_index xs (fst b)) (counter xs)"
  using first_seen_sorted[of xs] by (simp add: counter_eq sorted_wrt_map)

text \<open>
  Sorting in reverse gives descending keys and keeps the order of elements with equal
  keys.
\<close>

lemma sorted_reverse_desc: "sorted_wrt (\<lambda>a b. key b \<le> key a) (sorted_reverse key xs)"
proof -
  have "sorted (map key (sort_key key (rev xs)))" by (rule sorted_sort_key)
  then have "sorted_wrt (\<lambda>a b. key a \<le> key b) (sort_key key (rev xs))"
    by (simp add: sorted_map)
  then show ?thesis by (simp add: sorted_reverse_def sorted_wrt_rev)
qed

lemma sorted_reverse_stable:
  "filter (\<lambda>y. key y = k) (sorted_reverse key xs) = filter (\<lambda>y. key y = k) xs"
  by (simp add: sorted_reverse_def rev_filter[symmetric] sort_key_stable)

lemma set_sorted_reverse [simp]: "set (sorted_reverse key xs) = set xs"
  by (simp add: sorted_reverse_def)

lemma length_sorted_reverse [simp]: "length (sorted_reverse key xs) = length xs"
  by (simp add: sorted_reverse_def)

lemma distinct_sorted_reverse [simp]: "distinct (sorted_reverse key xs) = distinct xs"
  by (simp add: sorted_reverse_def)

lemma distinct_keys_sorted_reverse:
  "distinct (map fst (sorted_reverse key xs)) = distinct (map fst xs)"
  by (simp add: distinct_map)

lemma tie_break:
  "sorted_wrt (\<lambda>a b. key b \<le> key a) ys \<Longrightarrow>
   (\<forall>c. sorted_wrt G (filter (\<lambda>y. key y = c) ys)) \<Longrightarrow>
   sorted_wrt (\<lambda>a b. key b < key a \<or> (key a = key b \<and> G a b)) ys"
  for key :: "'a \<Rightarrow> 'k::linorder"
proof (induction ys)
  case Nil
  then show ?case by simp
next
  case (Cons y ys)
  have tail: "\<forall>c. sorted_wrt G (filter (\<lambda>y. key y = c) ys)"
  proof
    fix c
    from Cons.prems(2) have "sorted_wrt G (filter (\<lambda>y. key y = c) (y # ys))" by blast
    then show "sorted_wrt G (filter (\<lambda>y. key y = c) ys)" by (simp split: if_splits)
  qed
  have head: "key b < key y \<or> (key y = key b \<and> G y b)" if b: "b \<in> set ys" for b
  proof (cases "key b = key y")
    case True
    from Cons.prems(2) have "sorted_wrt G (filter (\<lambda>z. key z = key y) (y # ys))" by blast
    then have "\<forall>z\<in>set (filter (\<lambda>z. key z = key y) ys). G y z" by simp
    with b True show ?thesis by simp
  next
    case False
    moreover from Cons.prems(1) b have "key b \<le> key y" by simp
    ultimately show ?thesis by simp
  qed
  from Cons.prems(1) have "sorted_wrt (\<lambda>a b. key b \<le> key a) ys" by simp
  then have "sorted_wrt (\<lambda>a b. key b < key a \<or> (key a = key b \<and> G a b)) ys"
    using tail by (rule Cons.IH)
  with head show ?case by simp
qed

lemma sorted_reverse_counter:
  "sorted_wrt (count_order xs) (sorted_reverse snd (counter xs))"
proof -
  let ?G = "\<lambda>a b :: 'a \<times> nat. first_index xs (fst a) < first_index xs (fst b)"
  have desc: "sorted_wrt (\<lambda>a b. snd b \<le> snd a) (sorted_reverse snd (counter xs))"
    by (rule sorted_reverse_desc)
  have ties: "\<forall>c. sorted_wrt ?G (filter (\<lambda>y. snd y = c) (sorted_reverse snd (counter xs)))"
    by (simp add: sorted_reverse_stable sorted_wrt_filter counter_sorted_first_index)
  have "sorted_wrt (\<lambda>a b. snd b < snd a \<or> (snd a = snd b \<and> ?G a b))
      (sorted_reverse snd (counter xs))"
    using desc ties by (rule tie_break)
  then show ?thesis
    by (rule sorted_wrt_mono_rel[rotated]) (simp add: count_order_def)
qed

lemma most_common_props:
  "distinct (map fst (most_common n (counter xs)))
   \<and> sorted_wrt (count_order xs) (most_common n (counter xs))
   \<and> set (most_common n (counter xs)) \<subseteq> (\<lambda>k. (k, count_list xs k)) ` set xs"
proof (cases n)
  case None
  then show ?thesis
    by (simp add: most_common_def sorted_reverse_counter distinct_keys_sorted_reverse
        keys_counter set_counter)
next
  case (Some m)
  have d: "distinct (map fst (sorted_reverse snd (counter xs)))"
    by (simp add: distinct_keys_sorted_reverse keys_counter)
  have "distinct (take m (map fst (sorted_reverse snd (counter xs))))"
    using d by (rule distinct_take)
  then have "distinct (map fst (take m (sorted_reverse snd (counter xs))))"
    by (simp add: take_map)
  moreover have "sorted_wrt (count_order xs) (take m (sorted_reverse snd (counter xs)))"
    using sorted_reverse_counter by (rule sorted_wrt_take)
  moreover have "set (take m (sorted_reverse snd (counter xs))) \<subseteq> set (counter xs)"
    using set_take_subset[of m "sorted_reverse snd (counter xs)"] by simp
  ultimately show ?thesis using Some by (simp add: most_common_def set_counter)
qed

lemma genuine_counts:
  "set t \<subseteq> (\<lambda>k. (k, count_list xs k)) ` set xs \<Longrightarrow>
   \<forall>(k, c)\<in>set t. c = count_list xs k \<and> 0 < c"
proof -
  assume sub: "set t \<subseteq> (\<lambda>k. (k, count_list xs k)) ` set xs"
  have "c = count_list xs k \<and> 0 < c" if "(k, c) \<in> set t" for k c
  proof -
    from that sub have "(k, c) \<in> (\<lambda>k. (k, count_list xs k)) ` set xs" by blast
    then have k: "k \<in> set xs" and c: "c = count_list xs k" by auto
    from k have "count_list xs k \<noteq> 0" by (simp add: count_list_0_iff)
    with c show ?thesis by simp
  qed
  then show ?thesis by auto
qed

lemma length_most_common_Some: "length (most_common (Some m) items) \<le> m"
  by (simp add: most_common_def)

lemma most_common_None_set: "set (most_common None items) = set items"
  by (simp add: most_common_def)

lemma top_table:
  "dict_of (most_common (Some 10) (counter xs)) = most_common (Some 10) (counter xs)"
  using most_common_props[of "Some 10" xs] by (simp add: dict_of_distinct)

section \<open>Properties of the resolver and of the identifier split\<close>

lemma find_app:
  "find P (xs @ ys) = (case find P xs of None \<Rightarrow> find P ys | Some x \<Rightarrow> Some x)"
  by (induction xs) auto

lemma find_Some_mem: "find P xs = Some x \<Longrightarrow> P x \<and> x \<in> set xs"
  by (induction xs) (auto split: if_splits)

lemma map_of_all_subscriptions_fold:
  "map_of (fold (\<lambda>sub d.
        if state sub = lit ''Enabled''
        then dict_set (subscription_id sub) (subscription_id sub)
               (dict_set (display_name sub) (subscription_id sub) d)
        else d) subs d) target
   = (case find (matches target) (rev (filter enabled subs)) of
        None \<Rightarrow> map_of d target
      | Some sub \<Rightarrow> Some (subscription_id sub))"
proof (induction subs arbitrary: d)
  case Nil
  then show ?case by simp
next
  case (Cons sub subs)
  show ?case
    by (auto simp: Cons.IH find_app enabled_def matches_def map_of_dict_set split: option.splits)
qed

lemma map_of_all_subscriptions: "map_of (all_subscriptions subs) target = resolve subs target"
  by (simp add: all_subscriptions_def map_of_all_subscriptions_fold resolve_def split: option.splits)

lemma find_targets_eq:
  "find_targets d targets found = found @ List.map_filter (map_of d) targets"
  by (induction targets arbitrary: found) (auto simp: List.map_filter_simps split: option.splits)

lemma get_subscriptions_eq:
  "get_subscriptions self (Listed subs)
     = List.map_filter (resolve subs) (target_subscriptions self)"
proof -
  have "map_of (all_subscriptions subs) = resolve subs"
    by (rule ext) (rule map_of_all_subscriptions)
  then show ?thesis by (simp add: get_subscriptions_def find_targets_eq)
qed

lemma resolve_Some:
  "resolve subs target = Some i \<Longrightarrow>
   \<exists>sub\<in>set subs. enabled sub \<and> matches target sub \<and> subscription_id sub = i"
proof -
  assume "resolve subs target = Some i"
  then obtain sub where f: "find (matches target) (rev (filter enabled subs)) = Some sub"
    and i: "subscription_id sub = i"
    by (auto simp: resolve_def)
  from f have "matches target sub \<and> sub \<in> set (rev (filter enabled subs))"
    by (rule find_Some_mem)
  with i show ?thesis by auto
qed

lemma resolve_None:
  "resolve subs target = None \<longleftrightarrow> \<not> (\<exists>sub\<in>set subs. enabled sub \<and> matches target sub)"
  by (auto simp: resolve_def find_None_iff)

lemma ex_targets:
  "target_subscriptions example_analyzer
     = [lit ''ESS-PROD-C00-001'', lit ''SLProd'', lit ''SLSharedDR'', lit ''SLSharedProd'']"
  by (simp add: example_analyzer_def init_def)

lemma ex_resolved:
  "List.map_filter (resolve example_subscriptions)
      [lit ''ESS-PROD-C00-001'', lit ''SLProd'', lit ''SLSharedDR'', lit ''SLSharedProd'']
     = [lit ''id-1'', lit ''id-3'']"
  by code_simp

text \<open>
  Claim C6. For every list of targets and every list of subscriptions that the remote
  call yields, \<open>get_subscriptions\<close> returns, in the order of the targets, the identifier
  that each found target resolves to, and skips the targets that resolve to nothing. A
  target resolves to the identifier of a subscription in state \<open>Enabled\<close> whose display
  name or identifier is the target; it resolves to nothing exactly when no enabled
  subscription has that display name or identifier. So every identifier returned is
  that of an enabled subscription.
\<close>

theorem subscriptions_resolved:
  "get_subscriptions self (Listed subs) = List.map_filter (resolve subs) (target_subscriptions self)
   \<and> (\<forall>target i. resolve subs target = Some i \<longrightarrow>
         (\<exists>sub\<in>set subs. state sub = lit ''Enabled''
            \<and> (display_name sub = target \<or> subscription_id sub = target)
            \<and> subscription_id sub = i))
   \<and> (\<forall>target. resolve subs target = None \<longleftrightarrow>
         \<not> (\<exists>sub\<in>set subs. state sub = lit ''Enabled''
            \<and> (display_name sub = target \<or> subscription_id sub = target)))
   \<and> (\<forall>i\<in>set (get_subscriptions self (Listed subs)).
         \<exists>sub\<in>set subs. state sub = lit ''Enabled'' \<and> subscription_id sub = i)"
proof -
  have eq: "get_subscriptions self (Listed subs)
      = List.map_filter (resolve subs) (target_subscriptions self)"
    by (rule get_subscriptions_eq)
  have some: "\<forall>target i. resolve subs target = Some i \<longrightarrow>
         (\<exists>sub\<in>set subs. state sub = lit ''Enabled''
            \<and> (display_name sub = target \<or> subscription_id sub = target)
            \<and> subscription_id sub = i)"
    using resolve_Some by (fastforce simp: enabled_def matches_def)
  have none: "\<forall>target. resolve subs target = None \<longleftrightarrow>
         \<not> (\<exists>sub\<in>set subs. state sub = lit ''Enabled''
            \<and> (display_name sub = target \<or> subscription_id sub = target))"
    by (simp add: resolve_None enabled_def matches_def)
  have "\<forall>i\<in>set (List.map_filter (resolve subs) (target_subscriptions self)).
         \<exists>sub\<in>set subs. state sub = lit ''Enabled'' \<and> subscription_id sub = i"
    using some by (fastforce simp: List.map_filter_def)
  with eq some none show ?thesis by simp
qed

text \<open>
  Of the four targets of \<open>main\<close>, one is unknown and one is disabled; the other two are
  resolved in their order.
\<close>

theorem subscriptions_resolved_witness:
  "get_subscriptions example_analyzer (Listed example_subscriptions) = [lit ''id-1'', lit ''id-3'']"
proof -
  from subscriptions_resolved[of example_analyzer example_subscriptions]
  have "get_subscriptions example_analyzer (Listed example_subscriptions)
      = List.map_filter (resolve example_subscriptions) (target_subscriptions example_analyzer)"
    by (rule conjunct1)
  then show ?thesis by (simp only: ex_targets ex_resolved)
qed

text \<open>
  \<open>split\<close> and \<open>join\<close> are inverse to each other on lists of segments without the
  separator, and every string is the join of such segments.
\<close>

lemma split_nonempty: "split s sep \<noteq> []"
  by (induction s) (auto split: list.splits)

lemma split_join:
  "segs \<noteq> [] \<Longrightarrow> \<forall>s\<in>set segs. sep \<notin> set s \<Longrightarrow> split (join sep segs) sep = segs"
proof (induction sep segs rule: join.induct)
  case (1 sep)
  then show ?case by simp
next
  case (2 sep s)
  then show ?case by (induction s) auto
next
  case (3 sep s t ts)
  then have ih: "split (join sep (t # ts)) sep = t # ts" by simp
  from 3(3) have "sep \<notin> set s" by simp
  then have "split (s @ sep # join sep (t # ts)) sep = s # t # ts"
    using ih by (induction s) auto
  then show ?case by simp
qed

lemma join_Cons_head: "join sep ((c # w) # ws) = c # join sep (w # ws)"
  by (cases ws) auto

lemma join_split: "join sep (split s sep) = s"
proof (induction s)
  case Nil
  then show ?case by simp
next
  case (Cons c cs)
  obtain w ws where w: "split cs sep = w # ws" using split_nonempty by (cases "split cs sep") auto
  then show ?case using Cons by (auto simp: join_Cons_head)
qed

lemma split_no_sep: "\<forall>w\<in>set (split s sep). sep \<notin> set w"
  by (induction s) (auto split: list.splits)

lemma ex_join: "join slash example_segments = example_id"
  by code_simp

lemma ex_segments_ok: "example_segments \<noteq> []" "\<forall>s\<in>set example_segments. slash \<notin> set s"
  by (simp_all add: example_segments_def slash_def lit_def)

text \<open>
  Claim C7. Every identifier is the join by \<open>/\<close> of exactly one non-empty list of
  segments without \<open>/\<close>, and the resource group that the lister extracts is the segment
  at index 4 of that list when it has at least 5 segments, and the literal \<open>Unknown\<close>
  otherwise.
\<close>

theorem resource_group_is_fifth_segment:
  "\<exists>segs. segs \<noteq> [] \<and> (\<forall>s\<in>set segs. slash \<notin> set s) \<and> join slash segs = rid
     \<and> (\<forall>segs'. segs' \<noteq> [] \<and> (\<forall>s\<in>set segs'. slash \<notin> set s) \<and> join slash segs' = rid
            \<longrightarrow> segs' = segs)
     \<and> resource_group_of rid = (if 5 \<le> length segs then segs ! 4 else lit ''Unknown'')"
proof -
  let ?segs = "split rid slash"
  have uniq: "\<forall>segs'. segs' \<noteq> [] \<and> (\<forall>s\<in>set segs'. slash \<notin> set s) \<and> join slash segs' = rid
            \<longrightarrow> segs' = ?segs"
  proof (intro allI impI)
    fix segs'
    assume h: "segs' \<noteq> [] \<and> (\<forall>s\<in>set segs'. slash \<notin> set s) \<and> join slash segs' = rid"
    then have ne: "segs' \<noteq> []" and sf: "\<forall>s\<in>set segs'. slash \<notin> set s"
      and j: "join slash segs' = rid" by simp_all
    have "split (join slash segs') slash = segs'" using ne sf by (rule split_join)
    then show "segs' = ?segs" by (simp only: j)
  qed
  have rg: "resource_group_of rid = (if 5 \<le> length ?segs then ?segs ! 4 else lit ''Unknown'')"
    by (simp add: resource_group_of_def)
  show ?thesis
    by (rule exI[of _ ?segs]) (intro conjI split_nonempty split_no_sep join_split uniq rg)
qed

text \<open>
  The scenario of the specification: the identifier
  \<open>/subscriptions/x/resourceGroups/rg1/providers/p\<close> gives \<open>rg1\<close>.
\<close>

theorem resource_group_is_fifth_segment_witness:
  "resource_group_of example_id = lit ''rg1''"
proof -
  have len: "length example_segments = 7" and nth: "example_segments ! 4 = lit ''rg1''"
    by (simp_all add: example_segments_def)
  from resource_group_is_fifth_segment[of example_id]
  obtain segs where
    uniq: "\<forall>segs'. segs' \<noteq> [] \<and> (\<forall>s\<in>set segs'. slash \<notin> set s) \<and> join slash segs' = example_id
            \<longrightarrow> segs' = segs"
    and rg: "resource_group_of example_id = (if 5 \<le> length segs then segs ! 4 else lit ''Unknown'')"
    by blast
  have "example_segments \<noteq> [] \<and> (\<forall>s\<in>set example_segments. slash \<notin> set s)
      \<and> join slash example_segments = example_id"
    using ex_segments_ok ex_join by simp
  with uniq[rule_format, of example_segments] have "example_segments = segs" .
  with rg len nth show ?thesis by auto
qed

section \<open>Properties of the analysis\<close>

text \<open>
  The values of the analysis of a non-empty list, and the lines of the report.
\<close>

lemma resource_type_details_eq:
  "resource_type_details n (counter xs)
     = map (\<lambda>(rt, c). (rt, details_of n rt c)) (most_common None (counter xs))"
proof -
  let ?ps = "most_common None (counter xs)"
  have step: "(\<lambda>(resource_type, cnt) d. dict_set resource_type (details_of n resource_type cnt) d)
      = (\<lambda>(k, v) d. dict_set k v d) \<circ> (\<lambda>(rt, c). (rt, details_of n rt c))"
    by (auto simp: fun_eq_iff)
  have keys: "map fst (map (\<lambda>(rt, c). (rt, details_of n rt c)) ?ps) = map fst ?ps"
    by (auto simp: case_prod_beta)
  have "distinct (map fst ?ps)" using most_common_props[of None xs] by simp
  then have "dict_of (map (\<lambda>(rt, c). (rt, details_of n rt c)) ?ps)
      = map (\<lambda>(rt, c). (rt, details_of n rt c)) ?ps"
    by (simp only: dict_of_distinct keys)
  then show ?thesis
    by (simp only: resource_type_details_def step fold_map[symmetric] dict_of_def)
qed

lemma analysis_values:
  assumes "resources \<noteq> []"
  shows "map_of (analyze_resource_types self resources) ''top_locations''
           = Some (CountTable (most_common (Some 10) (counter (map res_location resources))))"
    and "map_of (analyze_resource_types self resources) ''top_resource_groups''
           = Some (CountTable (most_common (Some 10) (counter (map res_resource_group resources))))"
    and "map_of (analyze_resource_types self resources) ''resource_types''
           = Some (TypeTable (map (\<lambda>(rt, c). (rt, details_of (length resources) rt c))
               (most_common None (counter (map res_type resources)))))"
  using assms by (simp_all add: analyze_resource_types_def Let_def top_table resource_type_details_eq)

lemma section_line:
  "i < length tbl \<Longrightarrow> resource_types_section sf tbl ! (2 + 3 * i) = 10 # fst (tbl ! i)"
proof -
  let ?e = "\<lambda>(resource_type, details).
        [10 # resource_type,
         lit ''  Count: '' @ str_nat (count details) @ lit '' ('' @
           sf (percentage details) @ lit ''%)'',
         lit ''  Description: '' @ description details]"
  have "i < length tbl \<Longrightarrow> concat (map ?e tbl) ! (3 * i) = 10 # fst (tbl ! i)" for i
  proof (induction tbl arbitrary: i)
    case Nil
    then show ?case by simp
  next
    case (Cons p tbl)
    obtain k d where p: "p = (k, d)" by (cases p)
    show ?case
    proof (cases i)
      case 0
      then show ?thesis by (simp add: p)
    next
      case (Suc j)
      then have "j < length tbl" using Cons.prems by simp
      then have "concat (map ?e tbl) ! (3 * j) = 10 # fst (tbl ! j)" by (rule Cons.IH)
      moreover have "3 * i = Suc (Suc (Suc (3 * j)))" using Suc by simp
      ultimately show ?thesis using Suc by (simp add: p)
    qed
  qed
  moreover assume "i < length tbl"
  ultimately have "concat (map ?e tbl) ! (3 * i) = 10 # fst (tbl ! i)" by blast
  moreover have "(2::nat) + 3 * i = Suc (Suc (3 * i))" by simp
  ultimately show ?thesis
    by (simp only: resource_types_section_def append.simps nth_Cons_Suc)
qed

text \<open>
  The example: three virtual machines and one storage account, in two locations and
  three resource groups.
\<close>

lemma ex_nonempty: "example_resources \<noteq> []"
  by (simp add: example_resources_def)

lemma ex_locations: "map res_location example_resources
    = [lit ''eastus'', lit ''westus'', lit ''westus'', lit ''eastus'']"
  by (simp add: example_resources_def)

lemma ex_groups: "map res_resource_group example_resources
    = [lit ''rg1'', lit ''rg2'', lit ''rg1'', lit ''rg3'']"
  by (simp add: example_resources_def)

lemma ex_types: "map res_type example_resources
    = [lit ''Microsoft.Compute/virtualMachines'', lit ''Microsoft.Storage/storageAccounts'',
       lit ''Microsoft.Compute/virtualMachines'', lit ''Microsoft.Compute/virtualMachines'']"
  by (simp add: example_resources_def)

lemma ex_top_locations:
  "most_common (Some 10) (counter [lit ''eastus'', lit ''westus'', lit ''westus'', lit ''eastus''])
     = [(lit ''eastus'', 2), (lit ''westus'', 2)]"
  by code_simp

lemma ex_top_groups:
  "most_common (Some 10) (counter [lit ''rg1'', lit ''rg2'', lit ''rg1'', lit ''rg3''])
     = [(lit ''rg1'', 2), (lit ''rg2'', 1), (lit ''rg3'', 1)]"
  by code_simp

lemma ex_type_counts:
  "most_common None (counter
      [lit ''Microsoft.Compute/virtualMachines'', lit ''Microsoft.Storage/storageAccounts'',
       lit ''Microsoft.Compute/virtualMachines'', lit ''Microsoft.Compute/virtualMachines''])
     = [(lit ''Microsoft.Compute/virtualMachines'', 3),
        (lit ''Microsoft.Storage/storageAccounts'', 1)]"
  by code_simp

lemma ex_details_vm:
  "details_of 4 (lit ''Microsoft.Compute/virtualMachines'') 3
     = \<lparr>count = 3, description = lit ''Virtual machines for running applications and workloads'',
        percentage = 75\<rparr>"
  by code_simp

lemma ex_details_storage:
  "details_of 4 (lit ''Microsoft.Storage/storageAccounts'') 1
     = \<lparr>count = 1, description = lit ''Storage accounts for data storage and file sharing'',
        percentage = 25\<rparr>"
  by code_simp

lemma ex_table:
  "map_of (analyze_resource_types example_analyzer example_resources) ''resource_types''
     = Some (TypeTable example_type_table)"
proof -
  have len: "length example_resources = 4" by (simp add: example_resources_def)
  have "map_of (analyze_resource_types example_analyzer example_resources) ''resource_types''
      = Some (TypeTable (map (\<lambda>(rt, c). (rt, details_of (length example_resources) rt c))
               (most_common None (counter (map res_type example_resources)))))"
    using ex_nonempty by (rule analysis_values(3))
  then show ?thesis
    by (simp only: len ex_types ex_type_counts list.map prod.case ex_details_vm
        ex_details_storage example_type_table_def)
qed

text \<open>
  Claim C2, as amended. The analysis of a non-empty resource list has exactly the six
  keys \<open>total_resources\<close>, \<open>resource_types\<close>, \<open>top_locations\<close>, \<open>top_resource_groups\<close>,
  \<open>subscription_distribution\<close> and \<open>subscriptions_scanned\<close>, in this order; the analysis of
  the empty list has the five keys without \<open>subscription_distribution\<close>.
\<close>

theorem analysis_keys:
  "map fst (analyze_resource_types self resources) =
     (if resources = []
      then [''total_resources'', ''resource_types'', ''top_locations'', ''top_resource_groups'',
            ''subscriptions_scanned'']
      else [''total_resources'', ''resource_types'', ''top_locations'', ''top_resource_groups'',
            ''subscription_distribution'', ''subscriptions_scanned''])"
  by (simp add: analyze_resource_types_def Let_def)

theorem analysis_keys_witness:
  "map fst (analyze_resource_types example_analyzer example_resources) =
     [''total_resources'', ''resource_types'', ''top_locations'', ''top_resource_groups'',
      ''subscription_distribution'', ''subscriptions_scanned'']"
  using analysis_keys[of example_analyzer example_resources] ex_nonempty by simp

text \<open>
  Claim C2 as stated, with the six keys for every resource list, fails for the empty
  list: the early return of \<open>analyze_resource_types\<close> has no key
  \<open>subscription_distribution\<close>.
\<close>

theorem empty_analysis_lacks_distribution:
  "set (map fst (analyze_resource_types \<lparr>target_subscriptions = [lit ''SLProd'']\<rparr> [])) \<noteq>
     {''total_resources'', ''resource_types'', ''top_locations'', ''top_resource_groups'',
      ''subscription_distribution'', ''subscriptions_scanned''}"
proof
  let ?keys = "map fst (analyze_resource_types \<lparr>target_subscriptions = [lit ''SLProd'']\<rparr> [])"
  assume eq: "set ?keys =
     {''total_resources'', ''resource_types'', ''top_locations'', ''top_resource_groups'',
      ''subscription_distribution'', ''subscriptions_scanned''}"
  have "''subscription_distribution'' \<in> set ?keys" by (simp only: eq) simp
  moreover have "''subscription_distribution'' \<notin> set ?keys"
    by (simp add: analyze_resource_types_def)
  ultimately show False by simp
qed

text \<open>
  Claim C9. For every resource list, the field \<open>subscriptions_scanned\<close> of the analysis
  is the list of targets that the analyzer was configured with, whatever the resources
  are, also when they are the resources collected from the subscriptions that were
  resolved.
\<close>

theorem subscriptions_scanned_is_configured:
  "map_of (analyze_resource_types (init (Some targets)) resources) ''subscriptions_scanned''
     = Some (Strings targets)
   \<and> map_of (analyze_resource_types
        (init (Some targets)) (get_all_resources (init (Some targets)) remote client))
        ''subscriptions_scanned'' = Some (Strings targets)"
  by (simp add: analyze_resource_types_def Let_def init_def)

text \<open>
  In the example the field lists the four targets, of which two were resolved.
\<close>

theorem subscriptions_scanned_is_configured_witness:
  "map_of (analyze_resource_types example_analyzer example_resources) ''subscriptions_scanned''
     = Some (Strings
         [lit ''ESS-PROD-C00-001'', lit ''SLProd'', lit ''SLSharedDR'', lit ''SLSharedProd''])
   \<and> get_subscriptions example_analyzer (Listed example_subscriptions)
     = [lit ''id-1'', lit ''id-3'']"
proof -
  have "get_subscriptions example_analyzer (Listed example_subscriptions)
      = [lit ''id-1'', lit ''id-3'']"
    by (simp only: get_subscriptions_eq ex_targets ex_resolved)
  then show ?thesis
    using subscriptions_scanned_is_configured[of
        "[lit ''ESS-PROD-C00-001'', lit ''SLProd'', lit ''SLSharedDR'', lit ''SLSharedProd'']"
        example_resources]
    by (simp add: example_analyzer_def)
qed

text \<open>
  Claim C5. For every resource list, the tables \<open>top_locations\<close> and
  \<open>top_resource_groups\<close> of the analysis have at most 10 entries each, in descending order
  of count, entries of equal count in the order in which their keys are first met in the
  resource list. The keys of a table are distinct, and each count is the number of
  resources with that key.
\<close>

theorem top_tables_bounded_and_ordered:
  "\<exists>locs rgs.
     map_of (analyze_resource_types self resources) ''top_locations'' = Some (CountTable locs)
   \<and> map_of (analyze_resource_types self resources) ''top_resource_groups'' = Some (CountTable rgs)
   \<and> length locs \<le> 10 \<and> length rgs \<le> 10
   \<and> sorted_wrt (count_order (map res_location resources)) locs
   \<and> sorted_wrt (count_order (map res_resource_group resources)) rgs
   \<and> distinct (map fst locs) \<and> distinct (map fst rgs)
   \<and> (\<forall>(k, c)\<in>set locs. c = count_list (map res_location resources) k \<and> 0 < c)
   \<and> (\<forall>(k, c)\<in>set rgs. c = count_list (map res_resource_group resources) k \<and> 0 < c)"
proof (cases "resources = []")
  case True
  then show ?thesis by (simp add: analyze_resource_types_def)
next
  case False
  let ?locs = "most_common (Some 10) (counter (map res_location resources))"
  let ?rgs = "most_common (Some 10) (counter (map res_resource_group resources))"
  have l: "map_of (analyze_resource_types self resources) ''top_locations'' = Some (CountTable ?locs)"
    using False by (simp add: analyze_resource_types_def Let_def top_table)
  have r: "map_of (analyze_resource_types self resources) ''top_resource_groups''
      = Some (CountTable ?rgs)"
    using False by (simp add: analyze_resource_types_def Let_def top_table)
  have pl: "distinct (map fst ?locs) \<and> sorted_wrt (count_order (map res_location resources)) ?locs
    \<and> set ?locs \<subseteq> (\<lambda>k. (k, count_list (map res_location resources) k)) ` set (map res_location resources)"
    by (rule most_common_props)
  have pr: "distinct (map fst ?rgs) \<and> sorted_wrt (count_order (map res_resource_group resources)) ?rgs
    \<and> set ?rgs \<subseteq> (\<lambda>k. (k, count_list (map res_resource_group resources) k)) ` set (map res_resource_group resources)"
    by (rule most_common_props)
  have cl: "\<forall>(k, c)\<in>set ?locs. c = count_list (map res_location resources) k \<and> 0 < c"
    using pl genuine_counts by blast
  have cr: "\<forall>(k, c)\<in>set ?rgs. c = count_list (map res_resource_group resources) k \<and> 0 < c"
    using pr genuine_counts by blast
  show ?thesis
    using l r pl pr cl cr length_most_common_Some[of 10] by blast
qed

theorem top_tables_bounded_and_ordered_witness:
  "map_of (analyze_resource_types example_analyzer example_resources) ''top_locations''
     = Some (CountTable [(lit ''eastus'', 2), (lit ''westus'', 2)])
   \<and> map_of (analyze_resource_types example_analyzer example_resources) ''top_resource_groups''
     = Some (CountTable [(lit ''rg1'', 2), (lit ''rg2'', 1), (lit ''rg3'', 1)])
   \<and> sorted_wrt (count_order (map res_location example_resources))
        [(lit ''eastus'', 2), (lit ''westus'', 2)]
   \<and> sorted_wrt (count_order (map res_resource_group example_resources))
        [(lit ''rg1'', 2), (lit ''rg2'', 1), (lit ''rg3'', 1)]"
proof -
  have l: "map_of (analyze_resource_types example_analyzer example_resources) ''top_locations''
     = Some (CountTable [(lit ''eastus'', 2), (lit ''westus'', 2)])"
    by (simp add: analysis_values(1)[OF ex_nonempty] ex_locations ex_top_locations)
  have r: "map_of (analyze_resource_types example_analyzer example_resources) ''top_resource_groups''
     = Some (CountTable [(lit ''rg1'', 2), (lit ''rg2'', 1), (lit ''rg3'', 1)])"
    by (simp add: analysis_values(2)[OF ex_nonempty] ex_groups ex_top_groups)
  from top_tables_bounded_and_ordered[of example_analyzer example_resources]
  obtain locs rgs where
    "map_of (analyze_resource_types example_analyzer example_resources) ''top_locations''
       = Some (CountTable locs)"
    "map_of (analyze_resource_types example_analyzer example_resources) ''top_resource_groups''
       = Some (CountTable rgs)"
    "sorted_wrt (count_order (map res_location example_resources)) locs"
    "sorted_wrt (count_order (map res_resource_group example_resources)) rgs"
    by blast
  with l r show ?thesis by simp
qed

text \<open>
  Claim C10. For every non-empty resource list, the table \<open>resource_types\<close> of the
  analysis lists each resource type of the list once, in descending order of count,
  types of equal count in the order in which they are first met; each count is the number
  of resources of the type. The resource types section of the report names the types in
  the order of the table: after the two heading lines, every third line is the line of
  the next type.
\<close>

theorem resource_types_ordered:
  assumes "resources \<noteq> []"
  shows "\<exists>tbl.
     map_of (analyze_resource_types self resources) ''resource_types'' = Some (TypeTable tbl)
   \<and> distinct (map fst tbl)
   \<and> set (map fst tbl) = set (map res_type resources)
   \<and> sorted_wrt (count_order (map res_type resources)) (map (\<lambda>(k, d). (k, count d)) tbl)
   \<and> (\<forall>(k, d)\<in>set tbl. count d = count_list (map res_type resources) k)
   \<and> (\<forall>i<length tbl. resource_types_section str_float tbl ! (2 + 3 * i) = 10 # fst (tbl ! i))"
proof -
  let ?xs = "map res_type resources"
  let ?ps = "most_common None (counter ?xs)"
  let ?tbl = "map (\<lambda>(rt, c). (rt, details_of (length resources) rt c)) ?ps"
  have props: "distinct (map fst ?ps) \<and> sorted_wrt (count_order ?xs) ?ps
      \<and> set ?ps \<subseteq> (\<lambda>k. (k, count_list ?xs k)) ` set ?xs"
    by (rule most_common_props)
  have val: "map_of (analyze_resource_types self resources) ''resource_types'' = Some (TypeTable ?tbl)"
    using assms by (simp add: analyze_resource_types_def Let_def resource_type_details_eq)
  have keys: "map fst ?tbl = map fst ?ps" by (auto simp: case_prod_beta)
  have cnts: "map (\<lambda>(k, d). (k, count d)) ?tbl = ?ps"
    by (simp add: comp_def case_prod_beta details_of_def)
  have d: "distinct (map fst ?tbl)" using props by (simp only: keys)
  have "set ?ps = set (counter ?xs)" by (rule most_common_None_set)
  then have "set (map fst ?ps) = set (map fst (counter ?xs))" by simp
  then have s: "set (map fst ?tbl) = set ?xs" by (simp only: keys keys_counter set_first_seen)
  have o: "sorted_wrt (count_order ?xs) (map (\<lambda>(k, d). (k, count d)) ?tbl)"
    using props by (simp only: cnts)
  have g: "\<forall>(k, c)\<in>set ?ps. c = count_list ?xs k \<and> 0 < c"
    using props genuine_counts by blast
  have c: "\<forall>(k, d)\<in>set ?tbl. count d = count_list ?xs k"
    using g by (auto simp: details_of_def)
  have r: "\<forall>i<length ?tbl. resource_types_section str_float ?tbl ! (2 + 3 * i) = 10 # fst (?tbl ! i)"
    using section_line by blast
  show ?thesis
    by (rule exI[of _ ?tbl]) (intro conjI val d s o c r)
qed

theorem resource_types_ordered_witness:
  "map_of (analyze_resource_types example_analyzer example_resources) ''resource_types''
     = Some (TypeTable example_type_table)
   \<and> sorted_wrt (count_order (map res_type example_resources))
        [(lit ''Microsoft.Compute/virtualMachines'', 3),
         (lit ''Microsoft.Storage/storageAccounts'', 1)]"
proof -
  from resource_types_ordered[OF ex_nonempty, of example_analyzer "\<lambda>_. []"]
  obtain tbl where
    "map_of (analyze_resource_types example_analyzer example_resources) ''resource_types''
       = Some (TypeTable tbl)"
    "sorted_wrt (count_order (map res_type example_resources)) (map (\<lambda>(k, d). (k, count d)) tbl)"
    by blast
  with ex_table have
    "sorted_wrt (count_order (map res_type example_resources))
       (map (\<lambda>(k, d). (k, count d)) example_type_table)"
    by simp
  then show ?thesis using ex_table by (simp add: example_type_table_def)
qed

section \<open>Properties of the float operations\<close>

text \<open>
  Rounding to the nearest integer is off by at most one half; \<open>ilog2\<close> is the exponent;
  rounding a value between 0 and 128 to a float is off by at most \<open>2 powi -46\<close>. So a
  percentage differs from the exact quotient by at most one hundredth.
\<close>

lemma round_half_even_error: "\<bar>of_int (round_half_even y) - y\<bar> \<le> 1 / 2"
proof -
  define f where "f = \<lfloor>y\<rfloor>"
  have lo: "of_int f \<le> y" and hi: "y < of_int f + 1" unfolding f_def by linarith+
  consider "y - of_int f < 1 / 2" | "1 / 2 < y - of_int f" | "y - of_int f = 1 / 2"
    by linarith
  then show ?thesis
  proof cases
    case 1
    then have "round_half_even y = f" by (simp add: round_half_even_def Let_def f_def)
    with 1 lo show ?thesis by simp
  next
    case 2
    then have "round_half_even y = f + 1" by (simp add: round_half_even_def Let_def f_def)
    with 2 hi show ?thesis by simp
  next
    case 3
    then have "round_half_even y = f \<or> round_half_even y = f + 1"
      by (simp add: round_half_even_def Let_def f_def)
    with 3 show ?thesis by auto
  qed
qed

lemma round_half_even_nonneg: "0 \<le> y \<Longrightarrow> 0 \<le> round_half_even y"
proof -
  assume "0 \<le> y"
  then have "0 \<le> \<lfloor>y\<rfloor>" by simp
  then show ?thesis by (auto simp: round_half_even_def Let_def)
qed

lemma ilog2_bounds:
  assumes "0 < x"
  shows "2 powi (ilog2 x) \<le> x \<and> x < 2 powi (ilog2 x + 1)"
proof -
  obtain a b where q: "quotient_of x = (a, b)" by (cases "quotient_of x")
  have b: "0 < b" using q by (rule quotient_of_denom_pos)
  have x: "x = of_int a / of_int b" using q by (rule quotient_of_div)
  have a: "0 < a" using assms b x by (simp add: zero_less_divide_iff)
  let ?la = "bitlen a" and ?lb = "bitlen b"
  have la: "1 \<le> ?la" and lb: "1 \<le> ?lb" using a b by (simp_all add: bitlen_ge_iff_power)
  have A: "2 ^ nat (?la - 1) \<le> a" "a < 2 ^ nat ?la" using bitlen_bounds[OF a] by auto
  have B: "2 ^ nat (?lb - 1) \<le> b" "b < 2 ^ nat ?lb" using bitlen_bounds[OF b] by auto
  have Ar: "(2::rat) powi (?la - 1) \<le> of_int a" "of_int a < (2::rat) powi ?la"
  proof -
    have "(of_int (2 ^ nat (?la - 1)) :: rat) \<le> of_int a" using A(1) by (simp only: of_int_le_iff)
    then show "(2::rat) powi (?la - 1) \<le> of_int a" using la by (simp add: power_int_def)
    have "(of_int a :: rat) < of_int (2 ^ nat ?la)" using A(2) by (simp only: of_int_less_iff)
    then show "of_int a < (2::rat) powi ?la" using la by (simp add: power_int_def)
  qed
  have Br: "(2::rat) powi (?lb - 1) \<le> of_int b" "of_int b < (2::rat) powi ?lb"
  proof -
    have "(of_int (2 ^ nat (?lb - 1)) :: rat) \<le> of_int b" using B(1) by (simp only: of_int_le_iff)
    then show "(2::rat) powi (?lb - 1) \<le> of_int b" using lb by (simp add: power_int_def)
    have "(of_int b :: rat) < of_int (2 ^ nat ?lb)" using B(2) by (simp only: of_int_less_iff)
    then show "of_int b < (2::rat) powi ?lb" using lb by (simp add: power_int_def)
  qed
  have bpos: "(0::rat) < of_int b" using b by simp
  have low: "(2::rat) powi (?la - ?lb - 1) \<le> x"
  proof -
    have "(2::rat) powi (?la - ?lb - 1) = 2 powi (?la - 1) / 2 powi ?lb"
      by (simp add: power_int_diff[symmetric] algebra_simps)
    also have "\<dots> \<le> of_int a / 2 powi ?lb"
      using Ar(1) by (simp add: divide_right_mono)
    also have "\<dots> \<le> of_int a / of_int b"
      using Br(2) bpos a by (simp add: frac_le)
    finally show ?thesis by (simp add: x)
  qed
  have high: "x < (2::rat) powi (?la - ?lb + 1)"
  proof -
    have "x = of_int a / of_int b" by (rule x)
    also have "\<dots> < 2 powi ?la / of_int b"
      using Ar(2) bpos by (simp add: divide_strict_right_mono)
    also have "\<dots> \<le> 2 powi ?la / 2 powi (?lb - 1)"
      using Br(1) by (simp add: frac_le)
    also have "\<dots> = 2 powi (?la - ?lb + 1)"
      by (simp add: power_int_diff[symmetric] algebra_simps)
    finally show ?thesis .
  qed
  show ?thesis
  proof (cases "(2::rat) powi (?la - ?lb) \<le> x")
    case True
    then have "ilog2 x = ?la - ?lb" by (simp add: ilog2_def q)
    with True high show ?thesis by simp
  next
    case False
    then have "ilog2 x = ?la - ?lb - 1" by (simp add: ilog2_def q)
    with False low show ?thesis by simp
  qed
qed

lemma fl_error:
  assumes "0 \<le> x" and "x \<le> 128"
  shows "\<bar>fl x - x\<bar> \<le> 2 powi (- 46) \<and> 0 \<le> fl x"
proof (cases "x = 0")
  case True
  then show ?thesis by (simp add: fl_def)
next
  case False
  then have pos: "0 < x" using assms by simp
  define q where "q = max (ilog2 x) (- 1022) - 52"
  define y where "y = x / 2 powi q"
  have p2: "(0::rat) < 2 powi q" by simp
  have flx: "fl x = of_int (round_half_even y) * 2 powi q"
    using pos by (simp add: fl_def q_def y_def Let_def)
  have xq: "x = y * 2 powi q" by (simp add: y_def)
  have "2 powi (ilog2 x) \<le> x" using ilog2_bounds[OF pos] by simp
  then have "(2::rat) powi (ilog2 x) \<le> 2 powi 7" using assms by simp
  then have "ilog2 x \<le> 7" by (rule power_int_le_imp_le_exp[rotated]) simp_all
  then have q45: "q \<le> - 45" by (simp add: q_def)
  have "fl x - x = (of_int (round_half_even y) - y) * 2 powi q"
    by (simp add: flx algebra_simps) (simp add: y_def)
  then have "\<bar>fl x - x\<bar> = \<bar>of_int (round_half_even y) - y\<bar> * 2 powi q"
    by (simp add: abs_mult)
  also have "\<dots> \<le> (1 / 2) * 2 powi q"
    using round_half_even_error[of y] by (simp add: mult_right_mono)
  also have "\<dots> \<le> (1 / 2) * 2 powi (- 45)"
  proof -
    have "(2::rat) powi q \<le> 2 powi (- 45)" using q45 by (rule power_int_increasing) simp
    then show ?thesis by (simp only: mult_left_mono zero_le_divide_1_iff zero_le_numeral)
  qed
  also have "\<dots> = 2 powi (- 46)" by simp
  finally have err: "\<bar>fl x - x\<bar> \<le> 2 powi (- 46)" .
  have "0 \<le> y" using pos by (simp add: y_def)
  then have "0 \<le> round_half_even y" by (rule round_half_even_nonneg)
  then have "0 \<le> fl x" by (simp add: flx)
  with err show ?thesis by simp
qed

lemma fl_error_num:
  assumes "0 \<le> x" and "x \<le> 128"
  shows "\<bar>fl x - x\<bar> \<le> 1 / 70368744177664" and "0 \<le> fl x"
proof -
  have "(2::rat) powi (- 46) = 1 / 70368744177664" by (simp add: power_int_minus_divide)
  then show "\<bar>fl x - x\<bar> \<le> 1 / 70368744177664" and "0 \<le> fl x"
    using fl_error[OF assms] by simp_all
qed

lemma percentage_error:
  assumes "0 < n" and "c \<le> n"
  shows "\<bar>round2 (float_mul (int_truediv c n) 100) - 100 * of_nat c / of_nat n\<bar> \<le> 1 / 100"
proof -
  define r :: rat where "r = of_nat c / of_nat n"
  define y1 where "y1 = fl r"
  define y2 where "y2 = fl (y1 * 100)"
  define z where "z = round_half_even (y2 * 100)"
  define d :: rat where "d = of_int z / 100"
  define y3 where "y3 = fl d"
  have r0: "0 \<le> r" by (simp add: r_def)
  have r1: "r \<le> 1" using assms by (simp add: r_def)
  have r128: "r \<le> 128" using r1 by simp
  have e1: "\<bar>y1 - r\<bar> \<le> 1 / 70368744177664" and p1: "0 \<le> y1"
    unfolding y1_def by (rule fl_error_num[OF r0 r128])+
  have b1: "0 \<le> y1 * 100" "y1 * 100 \<le> 128" using e1 p1 r1 by linarith+
  have e2: "\<bar>y2 - y1 * 100\<bar> \<le> 1 / 70368744177664" and p2: "0 \<le> y2"
    unfolding y2_def by (rule fl_error_num[OF b1])+
  have ez: "\<bar>of_int z - y2 * 100\<bar> \<le> 1 / 2" unfolding z_def by (rule round_half_even_error)
  have "0 \<le> y2 * 100" using p2 by simp
  then have pz: "0 \<le> z" unfolding z_def by (rule round_half_even_nonneg)
  have "of_int z = d * 100" by (simp add: d_def)
  then have ed: "\<bar>d - y2\<bar> \<le> 1 / 200" using ez by linarith
  have pd: "0 \<le> d" using pz by (simp add: d_def)
  have bd: "d \<le> 128" using ed e2 e1 r1 by linarith
  have e3: "\<bar>y3 - d\<bar> \<le> 1 / 70368744177664"
    unfolding y3_def by (rule fl_error_num[OF pd bd])
  have "\<bar>y3 - 100 * r\<bar> \<le> 1 / 100" using e1 e2 ed e3 by linarith
  moreover have "round2 (float_mul (int_truediv c n) 100) = y3"
    by (simp add: round2_def float_mul_def int_truediv_def y3_def d_def z_def y2_def y1_def r_def)
  ultimately show ?thesis by (simp add: r_def)
qed

section \<open>The percentages\<close>

lemma sum_list_insort_key:
  "sum_list (map f (insort_key k x xs)) = f x + sum_list (map f xs)" for f :: "'a \<Rightarrow> rat"
  by (induction xs) auto

lemma sum_list_sort_key:
  "sum_list (map f (sort_key k xs)) = sum_list (map f xs)" for f :: "'a \<Rightarrow> rat"
  by (induction xs) (auto simp: sum_list_insort_key)

lemma sum_list_sorted_reverse:
  "sum_list (map f (sorted_reverse k xs)) = sum_list (map f xs)" for f :: "'a \<Rightarrow> rat"
proof -
  have "sum_list (map f (sorted_reverse k xs)) = sum_list (rev (map f (sort_key k (rev xs))))"
    by (simp add: sorted_reverse_def rev_map)
  also have "\<dots> = sum_list (map f (sort_key k (rev xs)))" by (rule sum_list_rev)
  also have "\<dots> = sum_list (map f (rev xs))" by (rule sum_list_sort_key)
  also have "\<dots> = sum_list (rev (map f xs))" by (simp add: rev_map)
  also have "\<dots> = sum_list (map f xs)" by (rule sum_list_rev)
  finally show ?thesis .
qed

lemma sum_list_abs_bound:
  "\<forall>x\<in>set xs. \<bar>f x\<bar> \<le> b \<Longrightarrow> \<bar>sum_list (map f xs)\<bar> \<le> b * of_nat (length xs)"
  for f :: "'a \<Rightarrow> rat"
proof (induction xs)
  case Nil
  then show ?case by simp
next
  case (Cons x xs)
  then have "\<bar>f x\<bar> \<le> b" and "\<bar>sum_list (map f xs)\<bar> \<le> b * of_nat (length xs)" by simp_all
  then show ?case by (simp add: algebra_simps)
qed

lemma sum_list_scaled:
  "(\<Sum>p\<leftarrow>ps. a * of_nat (g p) / m :: rat) = a * of_nat (sum_list (map g ps)) / m"
  by (induction ps) (auto simp: add_divide_distrib distrib_left)

lemma percentages_of_counts:
  assumes "xs \<noteq> []"
  shows "\<bar>(\<Sum>p\<leftarrow>counter xs. round2 (float_mul (int_truediv (snd p) (length xs)) 100)) - 100\<bar>
           \<le> (1 / 100) * of_nat (length (counter xs))"
proof -
  let ?n = "length xs"
  let ?P = "\<lambda>c::nat. round2 (float_mul (int_truediv c ?n) 100)"
  let ?e = "\<lambda>p :: 'a \<times> nat. ?P (snd p) - 100 * of_nat (snd p) / of_nat ?n"
  have n: "0 < ?n" using assms by simp
  have each: "\<forall>p\<in>set (counter xs). \<bar>?e p\<bar> \<le> 1 / 100"
  proof
    fix p assume "p \<in> set (counter xs)"
    then have "snd p = count_list xs (fst p)" by (auto simp: counter_eq)
    then have "snd p \<le> ?n" by (simp add: count_le_length)
    with n show "\<bar>?e p\<bar> \<le> 1 / 100" by (rule percentage_error)
  qed
  have "(\<Sum>p\<leftarrow>counter xs. 100 * of_nat (snd p) / of_nat ?n :: rat)
      = 100 * of_nat (sum_list (map snd (counter xs))) / of_nat ?n"
    by (rule sum_list_scaled)
  also have "\<dots> = 100" using n by (simp add: sum_counts)
  finally have exact: "(\<Sum>p\<leftarrow>counter xs. 100 * of_nat (snd p) / of_nat ?n :: rat) = 100" .
  have "(\<Sum>p\<leftarrow>counter xs. ?e p)
      = (\<Sum>p\<leftarrow>counter xs. ?P (snd p)) - (\<Sum>p\<leftarrow>counter xs. 100 * of_nat (snd p) / of_nat ?n)"
    by (rule sum_list_subtractf)
  then have "(\<Sum>p\<leftarrow>counter xs. ?P (snd p)) - 100 = (\<Sum>p\<leftarrow>counter xs. ?e p)"
    by (simp only: exact)
  moreover have "\<bar>\<Sum>p\<leftarrow>counter xs. ?e p\<bar> \<le> (1 / 100) * of_nat (length (counter xs))"
    using each by (rule sum_list_abs_bound)
  ultimately show ?thesis by simp
qed

text \<open>
  Claim C4. For every non-empty resource list, the percentages of the table
  \<open>resource_types\<close>, each the float \<open>round((count / len(resources)) * 100, 2)\<close>, sum to a
  value within 0.01 times the number of distinct resource types of 100.
\<close>

theorem percentages_sum_near_100:
  assumes "resources \<noteq> []"
  shows "\<exists>tbl.
     map_of (analyze_resource_types self resources) ''resource_types'' = Some (TypeTable tbl)
   \<and> length tbl = card (set (map res_type resources))
   \<and> \<bar>(\<Sum>(resource_type, details)\<leftarrow>tbl. percentage details) - 100\<bar>
        \<le> (1 / 100) * of_nat (length tbl)"
proof -
  let ?xs = "map res_type resources"
  let ?n = "length resources"
  let ?ps = "most_common None (counter ?xs)"
  let ?tbl = "map (\<lambda>(rt, c). (rt, details_of ?n rt c)) ?ps"
  let ?P = "\<lambda>p :: ustr \<times> nat. round2 (float_mul (int_truediv (snd p) ?n) 100)"
  have val: "map_of (analyze_resource_types self resources) ''resource_types'' = Some (TypeTable ?tbl)"
    using assms by (rule analysis_values)
  have len: "length ?tbl = card (set ?xs)"
    by (simp add: most_common_def length_counter)
  have "(\<Sum>(resource_type, details)\<leftarrow>?tbl. percentage details) = sum_list (map ?P ?ps)"
    by (simp add: comp_def case_prod_beta details_of_def)
  also have "\<dots> = sum_list (map ?P (counter ?xs))"
    by (simp only: most_common_def option.case sum_list_sorted_reverse)
  finally have s: "(\<Sum>(resource_type, details)\<leftarrow>?tbl. percentage details)
      = sum_list (map ?P (counter ?xs))" .
  have "?xs \<noteq> []" using assms by simp
  then have "\<bar>(\<Sum>p\<leftarrow>counter ?xs. round2 (float_mul (int_truediv (snd p) (length ?xs)) 100)) - 100\<bar>
           \<le> (1 / 100) * of_nat (length (counter ?xs))"
    by (rule percentages_of_counts)
  then have "\<bar>sum_list (map ?P (counter ?xs)) - 100\<bar> \<le> (1 / 100) * of_nat (length ?tbl)"
    by (simp add: most_common_def)
  then have b: "\<bar>(\<Sum>(resource_type, details)\<leftarrow>?tbl. percentage details) - 100\<bar>
        \<le> (1 / 100) * of_nat (length ?tbl)"
    by (simp only: s)
  show ?thesis
    by (rule exI[of _ ?tbl]) (intro conjI val len b)
qed

text \<open>
  In the example the percentages are 75 and 25.
\<close>

theorem percentages_sum_near_100_witness:
  "map_of (analyze_resource_types example_analyzer example_resources) ''resource_types''
     = Some (TypeTable example_type_table)
   \<and> \<bar>(\<Sum>(resource_type, details)\<leftarrow>example_type_table. percentage details) - 100\<bar>
        \<le> (1 / 100) * of_nat (length example_type_table)"
proof -
  from percentages_sum_near_100[OF ex_nonempty, of example_analyzer]
  obtain tbl where
    "map_of (analyze_resource_types example_analyzer example_resources) ''resource_types''
       = Some (TypeTable tbl)"
    "\<bar>(\<Sum>(resource_type, details)\<leftarrow>tbl. percentage details) - 100\<bar>
        \<le> (1 / 100) * of_nat (length tbl)"
    by blast
  with ex_table show ?thesis by simp
qed

end
